theory Spec2Isabelle
  imports Complex_Main "HOL-Library.AList"
begin

section \<open>Quiz session server: data model\<close>

text \<open>
  The embedding follows the server with streak scoring (\<^verbatim>\<open>src/unnamed/part_001\<close>).
  Socket ids, pins and uuids are strings. JavaScript numbers are modelled as
  integers (milliseconds, points); the one division of the program, in the time bonus,
  is computed over the rationals, which abstracts the IEEE doubles of the source.
  A JavaScript \<^verbatim>\<open>Map\<close> is an association list in insertion order:
  \<^verbatim>\<open>set\<close> is \<^const>\<open>AList.update\<close> (an existing key keeps its place, a new
  one goes last), \<^verbatim>\<open>delete\<close> is \<^const>\<open>AList.delete\<close>, \<^verbatim>\<open>get\<close> is
  \<^const>\<open>map_of\<close>.

  Requests are taken well-typed: pins, names, ids and answers are strings, durations
  are integers, of either sign, and arithmetic on them is exact. A duration that is
  not a finite number (which \<^verbatim>\<open>q.durationMs || 15000\<close> lets through, and with which
  the arithmetic of the source gives \<^verbatim>\<open>NaN\<close>) is outside the model. What the
  environment decides is a parameter of the event: the draws of \<^verbatim>\<open>genPin\<close>, the
  results of \<^verbatim>\<open>uuid()\<close>, the passing of time, a setting of the clock and the firing
  of a timer. Rooms are not modelled: an emit is recorded with the pin it goes to.
\<close>

type_synonym sock = string
type_synonym pin = string
type_synonym uuid = string

text \<open>A question as stored by \<^verbatim>\<open>session:start\<close>.\<close>

record question =
  q_id :: string
  prompt :: string
  options :: "string list"
  answer :: string
  durationMs :: int

text \<open>A question as the host sends it: id and duration are optional.\<close>

record question_in =
  id_in :: "string option"
  prompt_in :: string
  options_in :: "string list"
  answer_in :: string
  durationMs_in :: "int option"

record last_answer =
  qid :: string
  correct :: bool
  gained :: int
  timeBonus :: int
  streakBonus :: int
  penalty :: int

record player =
  p_id :: uuid
  socketId :: sock
  name :: string
  score :: int
  lastAnswer :: "last_answer option"
  streak :: int

text \<open>
  The handle returned by \<^verbatim>\<open>setTimeout\<close>: when it was armed, as a reading of the
  clock, and the delay that was asked for.
\<close>

record timeout =
  armedAt :: int
  delay :: int

record session =
  s_id :: uuid
  s_pin :: pin
  hostSocketId :: sock
  players :: "(sock \<times> player) list"
  questions :: "question list"
  questionIdx :: int
  deadline :: "int option"
  timer :: "timeout option"

text \<open>Reason codes of the failure replies.\<close>

datatype reason =
  no_question | already_answered | too_late | not_found | not_joined | not_host | no_more

text \<open>
  What \<^verbatim>\<open>scoreAnswer\<close> returns when it scores. The branch for a correct answer
  returns no \<^verbatim>\<open>penalty\<close> field, hence the option.
\<close>

record score_result =
  r_isCorrect :: bool
  r_gained :: int
  r_penalty :: "int option"
  r_correct :: string
  r_streak :: int

record leaderboard_row =
  l_id :: uuid
  l_name :: string
  l_score :: int
  l_lastAnswer :: "last_answer option"

datatype message =
  Leaderboard "leaderboard_row list"
  | SessionEnd string
  | Question string string "string list" int int nat
  | PlayerJoined uuid string

datatype reply =
  Created pin uuid
  | Ok
  | Fail reason
  | Joined uuid pin
  | Answered bool int int string int

text \<open>
  Everything a handler sends: the callback's reply to the calling socket, or an
  emit to the room of a pin.
\<close>

datatype out = Reply sock reply | Emit pin message

section \<open>Scoring\<close>

definition BASE_SCORE :: int where "BASE_SCORE = 1000"
definition TIME_BONUS_MAX :: int where "TIME_BONUS_MAX = 500"
definition STREAK_STEP :: int where "STREAK_STEP = 100"

definition currentQuestion :: "session \<Rightarrow> question option" where
  "currentQuestion s =
     (let i = questionIdx s in
      if 0 \<le> i \<and> i < int (length (questions s)) then Some (questions s ! nat i) else None)"

text \<open>\<^verbatim>\<open>Math.max(0, session.deadline - now)\<close>\<close>

definition remainingMs :: "int \<Rightarrow> int \<Rightarrow> int" where
  "remainingMs dl now = max 0 (dl - now)"

text \<open>\<^verbatim>\<open>Math.floor((remainingMs / q.durationMs) * TIME_BONUS_MAX)\<close>\<close>

definition timeBonus_of :: "int \<Rightarrow> int \<Rightarrow> int" where
  "timeBonus_of rem d = \<lfloor>(rat_of_int rem / rat_of_int d) * rat_of_int TIME_BONUS_MAX\<rfloor>"

text \<open>\<^verbatim>\<open>player.lastAnswer && player.lastAnswer.qid === q.id\<close>\<close>

definition answered :: "player \<Rightarrow> question \<Rightarrow> bool" where
  "answered p q = (case lastAnswer p of None \<Rightarrow> False | Some la \<Rightarrow> qid la = q_id q)"

text \<open>
  \<^verbatim>\<open>!session.deadline || now > session.deadline\<close>: a deadline that is
  \<^verbatim>\<open>null\<close> or \<^verbatim>\<open>0\<close> is falsy.
\<close>

definition late :: "session \<Rightarrow> int \<Rightarrow> bool" where
  "late s now = (case deadline s of None \<Rightarrow> True | Some dl \<Rightarrow> dl = 0 \<or> now > dl)"

text \<open>
  \<^verbatim>\<open>scoreAnswer(session, player, payload)\<close>, with the reading of
  \<^verbatim>\<open>Date.now()\<close> as a parameter. The player object is mutated in place by the
  source; the model returns the player after the call.
\<close>

definition scoreAnswer :: "session \<Rightarrow> player \<Rightarrow> string \<Rightarrow> int \<Rightarrow> (reason + score_result) \<times> player" where
  "scoreAnswer s p ans now =
     (case currentQuestion s of
        None \<Rightarrow> (Inl no_question, p)
      | Some q \<Rightarrow>
          if answered p q then (Inl already_answered, p)
          else if late s now then (Inl too_late, p)
          else
            let isCorrect = (ans = answer q);
                rem = remainingMs (the (deadline s)) now;
                tb = timeBonus_of rem (durationMs q)
            in if isCorrect then
                 let st = streak p + 1;
                     sb = st * STREAK_STEP;
                     g = BASE_SCORE + tb + sb;
                     p' = p\<lparr>streak := st, score := score p + g,
                            lastAnswer := Some \<lparr>qid = q_id q, correct = True, gained = g,
                              timeBonus = tb, streakBonus = sb, penalty = 0\<rparr>\<rparr>
                 in (Inr \<lparr>r_isCorrect = isCorrect, r_gained = g, r_penalty = None,
                          r_correct = answer q, r_streak = st\<rparr>, p')
               else
                 let pen = streak p * STREAK_STEP;
                     p' = p\<lparr>score := max 0 (score p - pen), streak := 0,
                            lastAnswer := Some \<lparr>qid = q_id q, correct = False, gained = 0,
                              timeBonus = 0, streakBonus = 0, penalty = pen\<rparr>\<rparr>
                 in (Inr \<lparr>r_isCorrect = isCorrect, r_gained = 0, r_penalty = Some pen,
                          r_correct = answer q, r_streak = 0\<rparr>, p'))"

section \<open>Sessions\<close>

text \<open>
  The process state: the \<^verbatim>\<open>SESSIONS\<close> map and the reading of the clock
  (\<^verbatim>\<open>Date.now()\<close>).
\<close>

record state =
  SESSIONS :: "(pin \<times> session) list"
  clock :: int

definition has :: "('k \<times> 'v) list \<Rightarrow> 'k \<Rightarrow> bool" where
  "has m k = (map_of m k \<noteq> None)"

text \<open>
  \<^verbatim>\<open>let pin = genPin(); while (SESSIONS.has(pin)) pin = genPin();\<close>
  The draws of \<^verbatim>\<open>genPin\<close> are a parameter; the loop ends at the first draw that is
  free, and has not ended (\<open>None\<close>) when every draw supplied is taken.
\<close>

fun pickPin :: "(pin \<times> session) list \<Rightarrow> pin list \<Rightarrow> pin option" where
  "pickPin m [] = None"
| "pickPin m (d # ds) = (if has m d then pickPin m ds else Some d)"

definition createSession :: "sock \<Rightarrow> pin list \<Rightarrow> uuid \<Rightarrow> state \<Rightarrow> (session \<times> state) option" where
  "createSession hostId draws u st =
     (case pickPin (SESSIONS st) draws of
        None \<Rightarrow> None
      | Some pn \<Rightarrow>
          let session = \<lparr>s_id = u, s_pin = pn, hostSocketId = hostId, players = [],
                questions = [], questionIdx = - 1, deadline = None, timer = None\<rparr>
          in Some (session, st\<lparr>SESSIONS := AList.update pn session (SESSIONS st)\<rparr>))"

text \<open>\<^verbatim>\<open>(name || "Guest")\<close>: the empty string is falsy.\<close>

definition orGuest :: "string \<Rightarrow> string" where
  "orGuest n = (if n = [] then ''Guest'' else n)"

definition addPlayer :: "session \<Rightarrow> sock \<Rightarrow> string \<Rightarrow> uuid \<Rightarrow> session \<times> player" where
  "addPlayer s sid n u =
     (let p = \<lparr>p_id = u, socketId = sid, name = take 40 (orGuest n), score = 0,
                lastAnswer = None, streak = 0\<rparr>
      in (s\<lparr>players := AList.update sid p (players s)\<rparr>, p))"

definition toRow :: "player \<Rightarrow> leaderboard_row" where
  "toRow p = \<lparr>l_id = p_id p, l_name = name p, l_score = score p, l_lastAnswer = lastAnswer p\<rparr>"

text \<open>
  \<^verbatim>\<open>Array.from(session.players.values()).map(...).sort((a, b) => b.score - a.score)\<close>:
  a stable sort, descending by score.
\<close>

definition leaderboard :: "session \<Rightarrow> leaderboard_row list" where
  "leaderboard s = sort_key (\<lambda>r. - l_score r) (map (toRow \<circ> snd) (players s))"

definition emitLeaderboard :: "session \<Rightarrow> out" where
  "emitLeaderboard s = Emit (s_pin s) (Leaderboard (leaderboard s))"

definition endSession :: "session \<Rightarrow> string \<Rightarrow> session \<times> out list" where
  "endSession s why = (s\<lparr>timer := None\<rparr>, [Emit (s_pin s) (SessionEnd why)])"

text \<open>
  \<^verbatim>\<open>nextQuestion(session)\<close> at clock reading \<open>now\<close>. The result is \<open>Ok\<close> for
  \<^verbatim>\<open>{ ok: true }\<close> and \<open>Fail no_more\<close> for
  \<^verbatim>\<open>{ ok: false, reason: "no-more" }\<close>.
\<close>

definition nextQuestion :: "session \<Rightarrow> int \<Rightarrow> session \<times> reply \<times> out list" where
  "nextQuestion s now =
     (let s1 = s\<lparr>timer := None\<rparr>;
          s2 = s1\<lparr>questionIdx := questionIdx s1 + 1\<rparr>
      in case currentQuestion s2 of
           None \<Rightarrow> (let (s3, evs) = endSession s2 ''done'' in (s3, Fail no_more, evs))
         | Some q \<Rightarrow>
             let s3 = s2\<lparr>deadline := Some (now + durationMs q)\<rparr>;
                 ev = Emit (s_pin s3)
                        (Question (q_id q) (prompt q) (options q) (the (deadline s3))
                           (questionIdx s3) (length (questions s3)));
                 s4 = s3\<lparr>timer := Some \<lparr>armedAt = now, delay = durationMs q + 50\<rparr>\<rparr>
             in (s4, Ok, [ev]))"

section \<open>Handlers\<close>

text \<open>
  \<^verbatim>\<open>q.id || uuid()\<close> and \<^verbatim>\<open>q.durationMs || 15000\<close>: an absent or empty id
  takes the uuid drawn for this question, an absent or zero duration takes 15000. Any
  other integer is kept, a negative one too; the source keeps every truthy value, and
  those that are not finite numbers are not modelled.
\<close>

definition mkQuestion :: "question_in \<times> uuid \<Rightarrow> question" where
  "mkQuestion qu =
     (let (q, u) = qu in
      \<lparr>q_id = (case id_in q of None \<Rightarrow> u | Some i \<Rightarrow> if i = [] then u else i),
       prompt = prompt_in q, options = options_in q, answer = answer_in q,
       durationMs = (case durationMs_in q of None \<Rightarrow> 15000 | Some d \<Rightarrow> if d = 0 then 15000 else d)\<rparr>)"

text \<open>
  The handlers mutate the session object they looked up under a pin; the model writes
  the session back under that pin.
\<close>

definition putSession :: "pin \<Rightarrow> session \<Rightarrow> state \<Rightarrow> state" where
  "putSession pn s st = st\<lparr>SESSIONS := AList.update pn s (SESSIONS st)\<rparr>"

text \<open>
  \<^verbatim>\<open>session:create\<close>. When the loop of \<^const>\<open>createSession\<close> has not ended on the
  draws supplied, the handler has not returned: no reply, no change.
\<close>

definition on_create :: "sock \<Rightarrow> pin list \<Rightarrow> uuid \<Rightarrow> state \<Rightarrow> state \<times> out list" where
  "on_create sid draws u st =
     (case createSession sid draws u st of
        None \<Rightarrow> (st, [])
      | Some (session, st') \<Rightarrow> (st', [Reply sid (Created (s_pin session) (s_id session))]))"

definition on_start :: "sock \<Rightarrow> pin \<Rightarrow> (question_in \<times> uuid) list \<Rightarrow> state \<Rightarrow> state \<times> out list" where
  "on_start sid pn qs st =
     (case map_of (SESSIONS st) pn of
        None \<Rightarrow> (st, [Reply sid (Fail not_host)])
      | Some s \<Rightarrow>
          if hostSocketId s \<noteq> sid then (st, [Reply sid (Fail not_host)])
          else
            let s1 = s\<lparr>questions := map mkQuestion qs\<rparr>;
                s2 = s1\<lparr>questionIdx := - 1\<rparr>;
                (s3, res, evs) = nextQuestion s2 (clock st)
            in (putSession pn s3 st, Reply sid Ok # evs))"

definition on_next :: "sock \<Rightarrow> pin \<Rightarrow> state \<Rightarrow> state \<times> out list" where
  "on_next sid pn st =
     (case map_of (SESSIONS st) pn of
        None \<Rightarrow> (st, [Reply sid (Fail not_host)])
      | Some s \<Rightarrow>
          if hostSocketId s \<noteq> sid then (st, [Reply sid (Fail not_host)])
          else
            let (s', res, evs) = nextQuestion s (clock st)
            in (putSession pn s' st, evs @ [Reply sid res]))"

definition on_join :: "sock \<Rightarrow> pin \<Rightarrow> string \<Rightarrow> uuid \<Rightarrow> state \<Rightarrow> state \<times> out list" where
  "on_join sid pn n u st =
     (case map_of (SESSIONS st) pn of
        None \<Rightarrow> (st, [Reply sid (Fail not_found)])
      | Some s \<Rightarrow>
          let (s', p) = addPlayer s sid (orGuest n) u
          in (putSession pn s' st,
              [Emit pn (PlayerJoined (p_id p) (name p)), emitLeaderboard s',
               Reply sid (Joined (p_id p) pn)]))"

text \<open>\<^verbatim>\<open>res.penalty || 0\<close>\<close>

definition penaltyOr0 :: "int option \<Rightarrow> int" where
  "penaltyOr0 x = (case x of None \<Rightarrow> 0 | Some n \<Rightarrow> n)"

definition on_answer :: "sock \<Rightarrow> pin \<Rightarrow> string \<Rightarrow> state \<Rightarrow> state \<times> out list" where
  "on_answer sid pn ans st =
     (case map_of (SESSIONS st) pn of
        None \<Rightarrow> (st, [Reply sid (Fail not_found)])
      | Some s \<Rightarrow>
          (case map_of (players s) sid of
             None \<Rightarrow> (st, [Reply sid (Fail not_joined)])
           | Some p \<Rightarrow>
               (case scoreAnswer s p ans (clock st) of
                  (Inl r, p') \<Rightarrow> (st, [Reply sid (Fail r)])
                | (Inr res, p') \<Rightarrow>
                    let s' = s\<lparr>players := AList.update sid p' (players s)\<rparr>
                    in (putSession pn s' st,
                        [Reply sid (Answered (r_isCorrect res) (r_gained res)
                           (penaltyOr0 (r_penalty res)) (r_correct res) (r_streak res)),
                         emitLeaderboard s']))))"

text \<open>
  The loop of the \<^verbatim>\<open>disconnect\<close> handler over \<^verbatim>\<open>SESSIONS.entries()\<close>: the
  entries that stay, and what is emitted, in iteration order.
\<close>

fun disconnect_loop :: "sock \<Rightarrow> (pin \<times> session) list \<Rightarrow> (pin \<times> session) list \<times> out list" where
  "disconnect_loop sid [] = ([], [])"
| "disconnect_loop sid ((pn, s) # rest) =
     (let (rest', evs) = disconnect_loop sid rest in
      if hostSocketId s = sid then
        (let (s', e) = endSession s ''host-left'' in (rest', e @ evs))
      else if has (players s) sid then
        (let s' = s\<lparr>players := AList.delete sid (players s)\<rparr>
         in ((pn, s') # rest', emitLeaderboard s' # evs))
      else ((pn, s) # rest', evs))"

definition on_disconnect :: "sock \<Rightarrow> state \<Rightarrow> state \<times> out list" where
  "on_disconnect sid st =
     (let (m, evs) = disconnect_loop sid (SESSIONS st) in (st\<lparr>SESSIONS := m\<rparr>, evs))"

text \<open>
  The timers of the runtime (Node), as documented: a delay above \<open>2147483647\<close> or
  below \<open>1\<close> is set to \<open>1\<close>.
\<close>

definition TIMEOUT_MAX :: int where "TIMEOUT_MAX = 2147483647"

definition setTimeout_delay :: "int \<Rightarrow> int" where
  "setTimeout_delay d = (if d < 1 \<or> TIMEOUT_MAX < d then 1 else d)"

text \<open>
  A timer is due when the delay the runtime gives it has elapsed. Against the readings
  of \<^verbatim>\<open>Date.now()\<close> the runtime can run the callback up to a millisecond before
  that.
\<close>

definition due :: "timeout \<Rightarrow> int" where
  "due t = armedAt t + setTimeout_delay (delay t)"

definition timerSlack :: int where "timerSlack = 1"

text \<open>
  The callback of \<^verbatim>\<open>setTimeout\<close>. A timer runs its callback only when it is the
  one the session holds (every other one was cleared) and not more than the slack
  before it is due.
\<close>

definition on_timeout :: "pin \<Rightarrow> state \<Rightarrow> state \<times> out list" where
  "on_timeout pn st =
     (case map_of (SESSIONS st) pn of
        None \<Rightarrow> (st, [])
      | Some s \<Rightarrow>
          (case timer s of
             None \<Rightarrow> (st, [])
           | Some t \<Rightarrow>
               if clock st < due t - timerSlack then (st, [])
               else let (s', res, evs) = nextQuestion s (clock st) in (putSession pn s' st, evs)))"

text \<open>
  Timers run on elapsed time, not on \<^verbatim>\<open>Date.now()\<close>. When the clock is set, by
  \<open>k\<close> milliseconds forward or (\<open>k < 0\<close>) back, no time passes: the time left to a
  pending timer is the same after as before, so the time of its arming, as a reading
  of the clock, moves by \<open>k\<close> with the clock. Deadlines are readings of
  \<^verbatim>\<open>Date.now()\<close> taken before, and stay.
\<close>

definition shiftTimer :: "int \<Rightarrow> session \<Rightarrow> session" where
  "shiftTimer k s = s\<lparr>timer := map_option (\<lambda>t. t\<lparr>armedAt := armedAt t + k\<rparr>) (timer s)\<rparr>"

definition on_clock_step :: "int \<Rightarrow> state \<Rightarrow> state" where
  "on_clock_step k st =
     st\<lparr>SESSIONS := map (\<lambda>e. (fst e, shiftTimer k (snd e))) (SESSIONS st),
        clock := clock st + k\<rparr>"

text \<open>
  The events the server reacts to. \<open>Tick\<close> is the passing of time, for the clock and
  for the timers. \<open>ClockStep\<close> is a setting of the clock.
\<close>

datatype event =
  Tick nat
  | SessionCreate sock "pin list" uuid
  | SessionStart sock pin "(question_in \<times> uuid) list"
  | QuestionNext sock pin
  | Join sock pin string uuid
  | Answer sock pin string
  | Disconnect sock
  | Timeout pin
  | ClockStep int

fun step :: "event \<Rightarrow> state \<Rightarrow> state \<times> out list" where
  "step (Tick n) st = (st\<lparr>clock := clock st + int n\<rparr>, [])"
| "step (SessionCreate sid draws u) st = on_create sid draws u st"
| "step (SessionStart sid pn qs) st = on_start sid pn qs st"
| "step (QuestionNext sid pn) st = on_next sid pn st"
| "step (Join sid pn n u) st = on_join sid pn n u st"
| "step (Answer sid pn ans) st = on_answer sid pn ans st"
| "step (Disconnect sid) st = on_disconnect sid st"
| "step (Timeout pn) st = on_timeout pn st"
| "step (ClockStep k) st = (on_clock_step k st, [])"

fun run :: "event list \<Rightarrow> state \<Rightarrow> state" where
  "run [] st = st"
| "run (e # es) st = run es (fst (step e st))"

definition init :: "int \<Rightarrow> state" where
  "init t0 = \<lparr>SESSIONS = [], clock = t0\<rparr>"

section \<open>The earlier revision of the server\<close>

text \<open>
  \<^verbatim>\<open>src/server.js\<close> is the same server before streak scoring was added. Its
  \<^verbatim>\<open>nextQuestion\<close> differs from the one above in the delay of the timer only:
  \<^verbatim>\<open>setTimeout(() => nextQuestion(session), q.durationMs)\<close>.
\<close>

definition nextQuestion_legacy :: "session \<Rightarrow> int \<Rightarrow> session \<times> reply \<times> out list" where
  "nextQuestion_legacy s now =
     (let s1 = s\<lparr>timer := None\<rparr>;
          s2 = s1\<lparr>questionIdx := questionIdx s1 + 1\<rparr>
      in case currentQuestion s2 of
           None \<Rightarrow> (let (s3, evs) = endSession s2 ''done'' in (s3, Fail no_more, evs))
         | Some q \<Rightarrow>
             let s3 = s2\<lparr>deadline := Some (now + durationMs q)\<rparr>;
                 ev = Emit (s_pin s3)
                        (Question (q_id q) (prompt q) (options q) (the (deadline s3))
                           (questionIdx s3) (length (questions s3)));
                 s4 = s3\<lparr>timer := Some \<lparr>armedAt = now, delay = durationMs q\<rparr>\<rparr>
             in (s4, Ok, [ev]))"

section \<open>Invariants of the reachable states\<close>

definition player_ok :: "player \<Rightarrow> bool" where
  "player_ok p = (0 \<le> score p \<and> 0 \<le> streak p)"

text \<open>
  What every session of a reachable state satisfies: one entry per socket, an index
  from \<open>-1\<close> on, no zero duration, and a timer only while a question is current,
  asked with the delay of that question.
\<close>

definition session_ok :: "session \<Rightarrow> bool" where
  "session_ok s =
     (distinct (map fst (players s)) \<and>
      - 1 \<le> questionIdx s \<and>
      (\<forall>q \<in> set (questions s). durationMs q \<noteq> 0) \<and>
      (\<forall>t. timer s = Some t \<longrightarrow>
         (\<exists>q. currentQuestion s = Some q \<and> delay t = durationMs q + 50)))"

definition state_ok :: "state \<Rightarrow> bool" where
  "state_ok st =
     (distinct (map fst (SESSIONS st)) \<and>
      (\<forall>e \<in> set (SESSIONS st). s_pin (snd e) = fst e \<and> session_ok (snd e)))"

text \<open>
  What holds in addition at clock reading \<open>now\<close> as long as the clock has not been
  set back: players have non-negative score and streak, and while a question is
  current its deadline is not later than a full duration from now, nor than a full
  duration from the arming of the pending timer.
\<close>

definition timed_ok :: "int \<Rightarrow> session \<Rightarrow> bool" where
  "timed_ok now s =
     ((\<forall>e \<in> set (players s). player_ok (snd e)) \<and>
      (\<forall>q \<in> set (questions s). durationMs q \<noteq> 0) \<and>
      (\<forall>q. currentQuestion s = Some q \<longrightarrow>
         (\<exists>dl. deadline s = Some dl \<and> dl \<le> now + durationMs q \<and>
            (\<forall>t. timer s = Some t \<longrightarrow> dl \<le> armedAt t + durationMs q))))"

text \<open>
  What holds as long as no question is given a negative duration: players have
  non-negative score and streak, and every duration is positive.
\<close>

definition positive_ok :: "session \<Rightarrow> bool" where
  "positive_ok s =
     ((\<forall>e \<in> set (players s). player_ok (snd e)) \<and>
      (\<forall>q \<in> set (questions s). 0 < durationMs q))"

text \<open>The events that do not set the clock back.\<close>

fun clock_forward :: "event \<Rightarrow> bool" where
  "clock_forward (ClockStep k) = (0 \<le> k)"
| "clock_forward e = True"

text \<open>The events that give no question a negative duration.\<close>

definition duration_nonneg :: "question_in \<times> uuid \<Rightarrow> bool" where
  "duration_nonneg qu = (case durationMs_in (fst qu) of None \<Rightarrow> True | Some d \<Rightarrow> 0 \<le> d)"

fun durations_nonneg :: "event \<Rightarrow> bool" where
  "durations_nonneg (SessionStart sid pn qs) = list_all duration_nonneg qs"
| "durations_nonneg e = True"

text \<open>
  The events that leave an answer of socket \<open>sid\<close> to the current question of the
  session at \<open>pn\<close>, whose host is \<open>h\<close>, on record: all but a new join of \<open>sid\<close> to
  the session, a start or an advance of the session by its host, its timer, and the
  disconnection of \<open>sid\<close> or of the host.
\<close>

fun undisturbed :: "sock \<Rightarrow> pin \<Rightarrow> sock \<Rightarrow> event \<Rightarrow> bool" where
  "undisturbed sid pn h (Join sid' pn' n u) = (\<not> (sid' = sid \<and> pn' = pn))"
| "undisturbed sid pn h (SessionStart sid' pn' qs) = (\<not> (sid' = h \<and> pn' = pn))"
| "undisturbed sid pn h (QuestionNext sid' pn') = (\<not> (sid' = h \<and> pn' = pn))"
| "undisturbed sid pn h (Timeout pn') = (pn' \<noteq> pn)"
| "undisturbed sid pn h (Disconnect sid') = (sid' \<noteq> sid \<and> sid' \<noteq> h)"
| "undisturbed sid pn h e = True"

text \<open>What the disconnect loop does to one session that stays.\<close>

definition dropPlayer :: "sock \<Rightarrow> session \<Rightarrow> session" where
  "dropPlayer sid s =
     (if has (players s) sid then s\<lparr>players := AList.delete sid (players s)\<rparr> else s)"

section \<open>Scenarios\<close>

definition helloQuestion :: question_in where
  "helloQuestion = \<lparr>id_in = None, prompt_in = ''annyeong'', options_in = [''Hello'', ''Bye''],
     answer_in = ''Hello'', durationMs_in = Some 15000\<rparr>"

definition byeQuestion :: question_in where
  "byeQuestion = \<lparr>id_in = Some ''q-bye'', prompt_in = ''annyeonghi gaseyo'',
     options_in = [''Hello'', ''Bye''], answer_in = ''Bye'', durationMs_in = None\<rparr>"

text \<open>
  Scenario A up to the answer: a session is created, started with one question, and
  P1 joins, with no time passing.
\<close>

definition scenarioA :: "event list" where
  "scenarioA =
     [SessionCreate ''host'' [''123456''] ''session-1'',
      SessionStart ''host'' ''123456'' [(helloQuestion, ''q-hello'')],
      Join ''sockP1'' ''123456'' ''P1'' ''player-1'']"

text \<open>
  P1 joins a session of three questions and answers the first two correctly, the host
  advancing after each; the third question is then current and P1 has a streak of 2.
\<close>

definition scenarioB :: "event list" where
  "scenarioB =
     [SessionCreate ''host'' [''123456''] ''session-1'',
      Join ''sockP1'' ''123456'' ''P1'' ''player-1'',
      SessionStart ''host'' ''123456''
        [(helloQuestion, ''q-hello''), (byeQuestion, ''unused''), (helloQuestion, ''q-hello-2'')],
      Tick 3000, Answer ''sockP1'' ''123456'' ''Hello'',
      QuestionNext ''host'' ''123456'',
      Tick 6000, Answer ''sockP1'' ''123456'' ''Bye'',
      QuestionNext ''host'' ''123456'',
      Tick 1000]"

text \<open>
  A session of one question runs to its end on the timer, then the host asks for the
  next question.
\<close>

definition scenarioOverrun :: "event list" where
  "scenarioOverrun =
     [SessionCreate ''host'' [''123456''] ''session-1'',
      SessionStart ''host'' ''123456'' [(helloQuestion, ''q-hello'')],
      Tick 15050, Timeout ''123456'',
      QuestionNext ''host'' ''123456'']"

text \<open>Scenario E: the host of a running session with one participant disconnects.\<close>

definition scenarioE :: "event list" where
  "scenarioE = scenarioA @ [Disconnect ''host'']"

text \<open>
  A question of negative duration is started, two participants having joined, and the
  clock is then set back by 57 ms.
\<close>

definition negativeQuestion :: question_in where
  "negativeQuestion = \<lparr>id_in = Some ''q-neg'', prompt_in = ''annyeong'',
     options_in = [''Hello'', ''Bye''], answer_in = ''Hello'', durationMs_in = Some (- 7)\<rparr>"

definition scenarioNegative :: "event list" where
  "scenarioNegative =
     [SessionCreate ''host'' [''123456''] ''session-1'',
      Join ''sockP1'' ''123456'' ''P1'' ''player-1'',
      Join ''sockP2'' ''123456'' ''P2'' ''player-2'',
      SessionStart ''host'' ''123456'' [(negativeQuestion, ''unused'')],
      ClockStep (- 57)]"

text \<open>Scenario A with the clock set back by five seconds before P1 answers.\<close>

definition scenarioBack :: "event list" where
  "scenarioBack = scenarioA @ [ClockStep (- 5000), Answer ''sockP1'' ''123456'' ''Hello'']"



text \<open>
  Scenario A, then P1 answers and joins again. And a session of two questions with
  ids of the host's, both answered by P1, that the host then starts again on the same
  questions, so that the first is current again.
\<close>

definition scenarioRejoin :: "event list" where
  "scenarioRejoin = scenarioA @
     [Answer ''sockP1'' ''123456'' ''Hello'',
      Join ''sockP1'' ''123456'' ''P1'' ''player-1b'']"

definition firstQuestion :: question_in where
  "firstQuestion = \<lparr>id_in = Some ''q-1'', prompt_in = ''annyeong'',
     options_in = [''Hello'', ''Bye''], answer_in = ''Hello'', durationMs_in = Some 15000\<rparr>"

definition scenarioRestart :: "event list" where
  "scenarioRestart =
     [SessionCreate ''host'' [''123456''] ''session-1'',
      Join ''sockP1'' ''123456'' ''P1'' ''player-1'',
      SessionStart ''host'' ''123456'' [(firstQuestion, ''unused''), (byeQuestion, ''unused'')],
      Answer ''sockP1'' ''123456'' ''Hello'',
      QuestionNext ''host'' ''123456'',
      Answer ''sockP1'' ''123456'' ''Bye'',
      SessionStart ''host'' ''123456'' [(firstQuestion, ''unused''), (byeQuestion, ''unused'')]]"

text \<open>
  What can follow an answer of P1 in Scenario A and leave it on record: time passes, P2
  joins, answers too late and leaves, a socket that is not the host asks for a start,
  and the clock is set back.
\<close>

definition scenarioQuiet :: "event list" where
  "scenarioQuiet =
     [Tick 20000,
      Join ''sockP2'' ''123456'' ''P2'' ''player-2'',
      Answer ''sockP2'' ''123456'' ''Hello'',
      Disconnect ''sockP2'',
      SessionStart ''sockP2'' ''123456'' [(byeQuestion, ''unused'')],
      ClockStep (- 30000)]"

text \<open>The session registered under a pin, for the scenarios.\<close>

definition sessionAt :: "pin \<Rightarrow> state \<Rightarrow> session" where
  "sessionAt pn st = the (map_of (SESSIONS st) pn)"

definition playerAt :: "pin \<Rightarrow> sock \<Rightarrow> state \<Rightarrow> player" where
  "playerAt pn sid st = the (map_of (players (sessionAt pn st)) sid)"

text \<open>The points gained that an answer reply carries.\<close>

fun replyGained :: "out \<Rightarrow> int option" where
  "replyGained (Reply sid (Answered c g pen right k)) = Some g"
| "replyGained other = None"

text \<open>
  The index invariant as the specification words it: \<open>-1\<close>, within bounds, or exactly
  one past the last valid index.
\<close>

definition index_as_specified :: "session \<Rightarrow> bool" where
  "index_as_specified s =
     (questionIdx s = - 1 \<or>
      (0 \<le> questionIdx s \<and> questionIdx s < int (length (questions s))) \<or>
      questionIdx s = int (length (questions s)))"

section \<open>The time bonus\<close>

lemma timeBonus_div: "0 < d \<Longrightarrow> timeBonus_of r d = (r * 500) div d"
proof -
  have "rat_of_int r / rat_of_int d * 500 = rat_of_int (r * 500) / rat_of_int d"
    by simp
  then show ?thesis
    by (simp only: timeBonus_of_def TIME_BONUS_MAX_def floor_divide_of_int_eq of_int_numeral)
qed

lemma timeBonus_mono: "0 < d \<Longrightarrow> r1 \<le> r2 \<Longrightarrow> timeBonus_of r1 d \<le> timeBonus_of r2 d"
  by (simp add: timeBonus_div zdiv_mono1)

lemma timeBonus_zero: "timeBonus_of 0 d = 0"
  by (simp add: timeBonus_of_def)

lemma timeBonus_nonneg: "0 < d \<Longrightarrow> 0 \<le> r \<Longrightarrow> 0 \<le> timeBonus_of r d"
  by (simp add: timeBonus_div pos_imp_zdiv_nonneg_iff)

lemma remainingMs_antitone: "now1 \<le> now2 \<Longrightarrow> remainingMs dl now2 \<le> remainingMs dl now1"
  by (simp add: remainingMs_def)

lemma remainingMs_past: "dl \<le> now \<Longrightarrow> remainingMs dl now = 0"
  by (simp add: remainingMs_def)

lemma remainingMs_nonneg: "0 \<le> remainingMs dl now"
  by (simp add: remainingMs_def)

section \<open>Scoring an answer\<close>

lemma scoreAnswer_Inl: "scoreAnswer s p a now = (Inl r, p') \<Longrightarrow> p' = p"
  by (auto simp: scoreAnswer_def Let_def split: option.splits if_splits)

lemma scoreAnswer_no_question:
  "currentQuestion s = None \<Longrightarrow> scoreAnswer s p a now = (Inl no_question, p)"
  by (simp add: scoreAnswer_def)

lemma scoreAnswer_already:
  "currentQuestion s = Some q \<Longrightarrow> answered p q \<Longrightarrow> scoreAnswer s p a now = (Inl already_answered, p)"
  by (simp add: scoreAnswer_def)

lemma scoreAnswer_late:
  "currentQuestion s = Some q \<Longrightarrow> \<not> answered p q \<Longrightarrow> late s now \<Longrightarrow>
   scoreAnswer s p a now = (Inl too_late, p)"
  by (simp add: scoreAnswer_def)

lemma scoreAnswer_Inr_answered:
  "scoreAnswer s p a now = (Inr res, p') \<Longrightarrow> \<exists>q. currentQuestion s = Some q \<and> answered p' q"
  by (auto simp: scoreAnswer_def Let_def answered_def split: option.splits if_splits)

lemma scoreAnswer_twice:
  "scoreAnswer s p a now = (Inr res, p') \<Longrightarrow> scoreAnswer s p' a' now' = (Inl already_answered, p')"
  using scoreAnswer_Inr_answered scoreAnswer_already by blast

lemma scoreAnswer_wrong:
  "currentQuestion s = Some q \<Longrightarrow> \<not> answered p q \<Longrightarrow> \<not> late s now \<Longrightarrow> a \<noteq> answer q \<Longrightarrow>
   scoreAnswer s p a now =
     (Inr \<lparr>r_isCorrect = False, r_gained = 0, r_penalty = Some (100 * streak p),
           r_correct = answer q, r_streak = 0\<rparr>,
      p\<lparr>score := max 0 (score p - 100 * streak p), streak := 0,
        lastAnswer := Some \<lparr>qid = q_id q, correct = False, gained = 0,
          timeBonus = 0, streakBonus = 0, penalty = 100 * streak p\<rparr>\<rparr>)"
  by (simp add: scoreAnswer_def Let_def STREAK_STEP_def mult.commute)

lemma currentQuestion_mem: "currentQuestion s = Some q \<Longrightarrow> q \<in> set (questions s)"
  by (auto simp: currentQuestion_def Let_def split: if_splits)

lemma scoreAnswer_player_ok:
  assumes p: "player_ok p"
    and r: "scoreAnswer s p a now = (x, p')"
    and pos: "\<And>q. currentQuestion s = Some q \<Longrightarrow> \<not> late s now \<Longrightarrow> 0 < durationMs q"
  shows "player_ok p'"
proof (cases x)
  case (Inl r')
  with r p show ?thesis by (auto dest: scoreAnswer_Inl)
next
  case (Inr res)
  with r obtain q where q: "currentQuestion s = Some q" and nl: "\<not> late s now"
    by (auto simp: scoreAnswer_def split: option.splits if_splits)
  with pos have "0 < durationMs q" by blast
  then have tb: "0 \<le> timeBonus_of (remainingMs (the (deadline s)) now) (durationMs q)"
    by (simp add: timeBonus_nonneg remainingMs_def)
  from r q nl tb p show ?thesis
    by (auto simp: scoreAnswer_def Let_def player_ok_def BASE_SCORE_def STREAK_STEP_def
        split: if_splits)
qed

section \<open>The invariants hold in every reachable state\<close>

lemma update_set: "e \<in> set (AList.update k v al) \<Longrightarrow> e = (k, v) \<or> e \<in> set al"
  by (induction al) (auto split: if_splits)

lemma delete_set: "e \<in> set (AList.delete k al) \<Longrightarrow> e \<in> set al"
  by (auto simp: AList.delete_eq)

lemma currentQuestion_upd [simp]:
  "currentQuestion (s\<lparr>timer := t\<rparr>) = currentQuestion s"
  "currentQuestion (s\<lparr>deadline := d\<rparr>) = currentQuestion s"
  "currentQuestion (s\<lparr>players := ps\<rparr>) = currentQuestion s"
  by (simp_all add: currentQuestion_def Let_def cong: if_cong)

lemma nextQuestion_None:
  "currentQuestion (s\<lparr>questionIdx := questionIdx s + 1\<rparr>) = None \<Longrightarrow>
   nextQuestion s now =
     (s\<lparr>timer := None, questionIdx := questionIdx s + 1\<rparr>, Fail no_more,
      [Emit (s_pin s) (SessionEnd ''done'')])"
  by (auto simp: nextQuestion_def endSession_def Let_def currentQuestion_def split: if_splits)

lemma nextQuestion_Some:
  "currentQuestion (s\<lparr>questionIdx := questionIdx s + 1\<rparr>) = Some q \<Longrightarrow>
   nextQuestion s now =
     (s\<lparr>questionIdx := questionIdx s + 1, deadline := Some (now + durationMs q),
        timer := Some \<lparr>armedAt = now, delay = durationMs q + 50\<rparr>\<rparr>, Ok,
      [Emit (s_pin s) (Question (q_id q) (prompt q) (options q) (now + durationMs q)
         (questionIdx s + 1) (length (questions s)))])"
  by (auto simp: nextQuestion_def Let_def currentQuestion_def split: if_splits)

lemma nextQuestion_ok:
  assumes "distinct (map fst (players s))" "- 1 \<le> questionIdx s"
    "\<forall>q\<in>set (questions s). durationMs q \<noteq> 0"
  shows "session_ok (fst (nextQuestion s now))"
proof (cases "currentQuestion (s\<lparr>questionIdx := questionIdx s + 1\<rparr>)")
  case None
  with assms show ?thesis
    by (simp add: nextQuestion_None session_ok_def)
next
  case (Some q)
  with assms show ?thesis
    by (simp add: nextQuestion_Some session_ok_def)
qed

lemma nextQuestion_ok': "session_ok s \<Longrightarrow> session_ok (fst (nextQuestion s now))"
  by (rule nextQuestion_ok) (simp_all add: session_ok_def)

lemma nextQuestion_pin: "s_pin (fst (nextQuestion s now)) = s_pin s"
  by (simp add: nextQuestion_def endSession_def Let_def split: option.splits)

lemma addPlayer_ok: "session_ok s \<Longrightarrow> session_ok (fst (addPlayer s sid n u))"
  by (auto simp: addPlayer_def Let_def session_ok_def distinct_update)

lemma mkQuestion_duration: "durationMs (mkQuestion qu) \<noteq> 0"
  by (cases qu) (simp add: mkQuestion_def split: option.splits)

lemma start_ok:
  assumes "session_ok s"
  shows "session_ok (fst (nextQuestion (s\<lparr>questions := map mkQuestion qs, questionIdx := - 1\<rparr>) now))"
  using assms by (intro nextQuestion_ok) (auto simp: session_ok_def mkQuestion_duration)

lemma answer_ok:
  assumes "session_ok s"
  shows "session_ok (s\<lparr>players := AList.update sid p' (players s)\<rparr>)"
  using assms by (auto simp: session_ok_def distinct_update)

lemma dropPlayer_ok: "session_ok s \<Longrightarrow> session_ok (dropPlayer sid s)"
  by (auto simp: dropPlayer_def session_ok_def distinct_delete)

lemma dropPlayer_pin: "s_pin (dropPlayer sid s) = s_pin s"
  by (simp add: dropPlayer_def)

lemma currentQuestion_shift [simp]: "currentQuestion (shiftTimer k s) = currentQuestion s"
  by (simp add: shiftTimer_def)

lemma shiftTimer_ok: "session_ok s \<Longrightarrow> session_ok (shiftTimer k s)"
  by (auto simp: session_ok_def shiftTimer_def)

lemma shiftTimer_pin: "s_pin (shiftTimer k s) = s_pin s"
  by (simp add: shiftTimer_def)

lemma disconnect_loop_fst:
  "fst (disconnect_loop sid m) =
     map (\<lambda>e. (fst e, dropPlayer sid (snd e))) (filter (\<lambda>e. hostSocketId (snd e) \<noteq> sid) m)"
  by (induction m) (auto simp: dropPlayer_def endSession_def Let_def split: prod.splits)

lemma distinct_filter_keys: "distinct (map fst m) \<Longrightarrow> distinct (map fst (filter P m))"
  by (induction m) auto

lemma state_ok_put:
  assumes "state_ok st" "s_pin s' = pn" "session_ok s'"
  shows "state_ok (putSession pn s' st)"
  using assms by (auto simp: state_ok_def putSession_def distinct_update dest!: update_set)

lemma state_ok_lookup:
  "state_ok st \<Longrightarrow> map_of (SESSIONS st) pn = Some s \<Longrightarrow> s_pin s = pn \<and> session_ok s"
  by (auto simp: state_ok_def dest!: map_of_SomeD)

lemma state_ok_tick: "state_ok st \<Longrightarrow> state_ok (st\<lparr>clock := clock st + int n\<rparr>)"
  by (simp add: state_ok_def)

lemma state_ok_clock_step: "state_ok st \<Longrightarrow> state_ok (on_clock_step k st)"
  by (auto simp: state_ok_def on_clock_step_def comp_def shiftTimer_pin shiftTimer_ok)

lemma state_ok_create: "state_ok st \<Longrightarrow> state_ok (fst (on_create sid draws u st))"
proof (cases "pickPin (SESSIONS st) draws")
  case None
  assume "state_ok st"
  with None show ?thesis by (simp add: on_create_def createSession_def)
next
  case (Some pn)
  assume i: "state_ok st"
  let ?s = "\<lparr>s_id = u, s_pin = pn, hostSocketId = sid, players = [],
                questions = [], questionIdx = - 1, deadline = None, timer = None\<rparr>"
  have "session_ok ?s"
    by (simp add: session_ok_def currentQuestion_def)
  with i have "state_ok (putSession pn ?s st)" by (intro state_ok_put) simp_all
  with Some show ?thesis
    by (simp add: on_create_def createSession_def putSession_def Let_def)
qed

lemma state_ok_start: "state_ok st \<Longrightarrow> state_ok (fst (on_start sid pn qs st))"
proof -
  assume i: "state_ok st"
  show ?thesis
  proof (cases "map_of (SESSIONS st) pn")
    case None
    with i show ?thesis by (simp add: on_start_def)
  next
    case (Some s)
    with i have s: "s_pin s = pn" "session_ok s" by (auto dest: state_ok_lookup)
    let ?s' = "fst (nextQuestion (s\<lparr>questions := map mkQuestion qs, questionIdx := - 1\<rparr>) (clock st))"
    have "state_ok (putSession pn ?s' st)"
      using i s by (intro state_ok_put start_ok) (simp_all add: nextQuestion_pin)
    with i Some show ?thesis
      by (auto simp: on_start_def Let_def split: prod.splits)
  qed
qed

lemma state_ok_next: "state_ok st \<Longrightarrow> state_ok (fst (on_next sid pn st))"
proof -
  assume i: "state_ok st"
  show ?thesis
  proof (cases "map_of (SESSIONS st) pn")
    case None
    with i show ?thesis by (simp add: on_next_def)
  next
    case (Some s)
    with i have s: "s_pin s = pn" "session_ok s" by (auto dest: state_ok_lookup)
    have "state_ok (putSession pn (fst (nextQuestion s (clock st))) st)"
      using i s by (intro state_ok_put nextQuestion_ok') (simp_all add: nextQuestion_pin)
    with i Some show ?thesis
      by (auto simp: on_next_def Let_def split: prod.splits)
  qed
qed

lemma state_ok_timeout: "state_ok st \<Longrightarrow> state_ok (fst (on_timeout pn st))"
proof -
  assume i: "state_ok st"
  show ?thesis
  proof (cases "map_of (SESSIONS st) pn")
    case None
    with i show ?thesis by (simp add: on_timeout_def)
  next
    case (Some s)
    with i have s: "s_pin s = pn" "session_ok s" by (auto dest: state_ok_lookup)
    have "state_ok (putSession pn (fst (nextQuestion s (clock st))) st)"
      using i s by (intro state_ok_put nextQuestion_ok') (simp_all add: nextQuestion_pin)
    with i Some show ?thesis
      by (auto simp: on_timeout_def Let_def split: prod.splits option.splits)
  qed
qed

lemma state_ok_join: "state_ok st \<Longrightarrow> state_ok (fst (on_join sid pn n u st))"
proof -
  assume i: "state_ok st"
  show ?thesis
  proof (cases "map_of (SESSIONS st) pn")
    case None
    with i show ?thesis by (simp add: on_join_def)
  next
    case (Some s)
    with i have s: "s_pin s = pn" "session_ok s" by (auto dest: state_ok_lookup)
    have "state_ok (putSession pn (fst (addPlayer s sid (orGuest n) u)) st)"
      using i s by (intro state_ok_put addPlayer_ok) (simp_all add: addPlayer_def Let_def)
    with i Some show ?thesis
      by (auto simp: on_join_def Let_def split: prod.splits)
  qed
qed

lemma state_ok_answer: "state_ok st \<Longrightarrow> state_ok (fst (on_answer sid pn a st))"
proof -
  assume i: "state_ok st"
  show ?thesis
  proof (cases "map_of (SESSIONS st) pn")
    case None
    with i show ?thesis by (simp add: on_answer_def)
  next
    case (Some s)
    with i have s: "s_pin s = pn" "session_ok s" by (auto dest: state_ok_lookup)
    show ?thesis
    proof (cases "map_of (players s) sid")
      case None
      with i Some show ?thesis by (simp add: on_answer_def)
    next
      case p: (Some p)
      obtain x p' where r: "scoreAnswer s p a (clock st) = (x, p')" by force
      have "state_ok (putSession pn (s\<lparr>players := AList.update sid p' (players s)\<rparr>) st)"
        using i s by (intro state_ok_put answer_ok) simp_all
      with i Some p r show ?thesis
        by (cases x) (simp_all add: on_answer_def Let_def)
    qed
  qed
qed

lemma state_ok_disconnect: "state_ok st \<Longrightarrow> state_ok (fst (on_disconnect sid st))"
proof -
  assume i: "state_ok st"
  have "SESSIONS (fst (on_disconnect sid st)) = fst (disconnect_loop sid (SESSIONS st))"
    by (simp_all add: on_disconnect_def split: prod.splits)
  then have m: "SESSIONS (fst (on_disconnect sid st)) =
     map (\<lambda>e. (fst e, dropPlayer sid (snd e))) (filter (\<lambda>e. hostSocketId (snd e) \<noteq> sid) (SESSIONS st))"
    by (simp add: disconnect_loop_fst)
  have "map fst (SESSIONS (fst (on_disconnect sid st))) =
     map fst (filter (\<lambda>e. hostSocketId (snd e) \<noteq> sid) (SESSIONS st))"
    by (simp add: m comp_def)
  with i have d: "distinct (map fst (SESSIONS (fst (on_disconnect sid st))))"
    by (simp add: state_ok_def distinct_filter_keys)
  from i have "\<forall>e \<in> set (SESSIONS st).
      s_pin (dropPlayer sid (snd e)) = fst e \<and> session_ok (dropPlayer sid (snd e))"
    by (simp add: state_ok_def dropPlayer_pin dropPlayer_ok)
  then have "\<forall>e \<in> set (SESSIONS (fst (on_disconnect sid st))).
      s_pin (snd e) = fst e \<and> session_ok (snd e)"
    by (auto simp: m)
  with d show ?thesis by (simp add: state_ok_def)
qed

lemma state_ok_step: "state_ok st \<Longrightarrow> state_ok (fst (step e st))"
  by (cases e) (simp_all add: state_ok_tick state_ok_create state_ok_start state_ok_next
      state_ok_join state_ok_answer state_ok_disconnect state_ok_timeout state_ok_clock_step)

lemma state_ok_init: "state_ok (init t0)"
  by (simp add: state_ok_def init_def)

lemma state_ok_run': "state_ok st \<Longrightarrow> state_ok (run evs st)"
  by (induction evs arbitrary: st) (simp_all add: state_ok_step)

lemma state_ok_run: "state_ok (run evs (init t0))"
  by (simp add: state_ok_run' state_ok_init)

lemma reachable_session:
  "map_of (SESSIONS (run evs (init t0))) pn = Some s \<Longrightarrow> s_pin s = pn \<and> session_ok s"
  using state_ok_run state_ok_lookup by blast

section \<open>What holds while the clock is not set back, or no duration is negative\<close>

lemma step_sessions:
  fixes P Q :: "session \<Rightarrow> bool"
  assumes every: "\<forall>x\<in>set (SESSIONS st). P (snd x)"
    and keep: "\<And>s. P s \<Longrightarrow> Q s"
    and fresh: "\<And>sid pn u. Q \<lparr>s_id = u, s_pin = pn, hostSocketId = sid, players = [],
                questions = [], questionIdx = - 1, deadline = None, timer = None\<rparr>"
    and start: "\<And>sid pn qs s. e = SessionStart sid pn qs \<Longrightarrow> P s \<Longrightarrow>
       Q (fst (nextQuestion (s\<lparr>questions := map mkQuestion qs, questionIdx := - 1\<rparr>) (clock st)))"
    and nxt: "\<And>s. P s \<Longrightarrow> Q (fst (nextQuestion s (clock st)))"
    and join: "\<And>s sid n u. P s \<Longrightarrow> Q (fst (addPlayer s sid n u))"
    and ans: "\<And>s sid p a res p'. P s \<Longrightarrow> map_of (players s) sid = Some p \<Longrightarrow>
       scoreAnswer s p a (clock st) = (Inr res, p') \<Longrightarrow>
       Q (s\<lparr>players := AList.update sid p' (players s)\<rparr>)"
    and drop: "\<And>s sid. P s \<Longrightarrow> Q (dropPlayer sid s)"
    and shift: "\<And>s k. e = ClockStep k \<Longrightarrow> P s \<Longrightarrow> Q (shiftTimer k s)"
  shows "\<forall>x\<in>set (SESSIONS (fst (step e st))). Q (snd x)"
proof -
  have put: "\<forall>x\<in>set (SESSIONS (putSession pn s' st)). Q (snd x)" if "Q s'" for pn s'
    using that every keep by (auto simp: putSession_def dest!: update_set)
  have same: "\<forall>x\<in>set (SESSIONS st). Q (snd x)"
    using every keep by blast
  have look: "P s" if "map_of (SESSIONS st) pn = Some s" for pn s
    using that every by (auto dest!: map_of_SomeD)
  show ?thesis
  proof (cases e)
    case (Tick n)
    with same show ?thesis by simp
  next
    case (SessionCreate sid draws u)
    show ?thesis
    proof (cases "pickPin (SESSIONS st) draws")
      case None
      with SessionCreate same show ?thesis by (simp add: on_create_def createSession_def)
    next
      case (Some pn)
      with SessionCreate put [OF fresh [of u pn sid], of pn] show ?thesis
        by (simp add: on_create_def createSession_def putSession_def Let_def)
    qed
  next
    case (SessionStart sid pn qs)
    show ?thesis
    proof (cases "map_of (SESSIONS st) pn")
      case None
      with SessionStart same show ?thesis by (simp add: on_start_def)
    next
      case (Some s)
      with SessionStart same put [OF start [OF SessionStart look [OF Some]], of pn]
      show ?thesis by (auto simp: on_start_def Let_def split: prod.splits)
    qed
  next
    case (QuestionNext sid pn)
    show ?thesis
    proof (cases "map_of (SESSIONS st) pn")
      case None
      with QuestionNext same show ?thesis by (simp add: on_next_def)
    next
      case (Some s)
      with QuestionNext same put [OF nxt [OF look [OF Some]], of pn]
      show ?thesis by (auto simp: on_next_def Let_def split: prod.splits)
    qed
  next
    case (Join sid pn n u)
    show ?thesis
    proof (cases "map_of (SESSIONS st) pn")
      case None
      with Join same show ?thesis by (simp add: on_join_def)
    next
      case (Some s)
      with Join put [OF join [OF look [OF Some], of sid "orGuest n" u], of pn]
      show ?thesis by (auto simp: on_join_def Let_def split: prod.splits)
    qed
  next
    case (Answer sid pn a)
    show ?thesis
    proof (cases "map_of (SESSIONS st) pn")
      case None
      with Answer same show ?thesis by (simp add: on_answer_def)
    next
      case (Some s)
      show ?thesis
      proof (cases "map_of (players s) sid")
        case None
        with Answer Some same show ?thesis by (simp add: on_answer_def)
      next
        case p: (Some p)
        obtain x p' where r: "scoreAnswer s p a (clock st) = (x, p')" by force
        show ?thesis
        proof (cases x)
          case (Inl rsn)
          with Answer Some p r same show ?thesis by (simp add: on_answer_def)
        next
          case (Inr res)
          with Answer Some p r put [OF ans [OF look [OF Some] p, of a res p'], of pn]
          show ?thesis by (simp add: on_answer_def Let_def)
        qed
      qed
    qed
  next
    case (Disconnect sid)
    have "SESSIONS (fst (on_disconnect sid st)) =
       map (\<lambda>e. (fst e, dropPlayer sid (snd e))) (filter (\<lambda>e. hostSocketId (snd e) \<noteq> sid) (SESSIONS st))"
      by (simp add: on_disconnect_def disconnect_loop_fst [symmetric] split: prod.splits)
    with Disconnect every drop show ?thesis by auto
  next
    case (Timeout pn)
    show ?thesis
    proof (cases "map_of (SESSIONS st) pn")
      case None
      with Timeout same show ?thesis by (simp add: on_timeout_def)
    next
      case (Some s)
      with Timeout same put [OF nxt [OF look [OF Some]], of pn]
      show ?thesis by (auto simp: on_timeout_def Let_def split: prod.splits option.splits)
    qed
  next
    case (ClockStep k)
    with every shift show ?thesis by (auto simp: on_clock_step_def)
  qed
qed


lemma clock_step:
  "clock (fst (step e st)) =
     (case e of Tick n \<Rightarrow> clock st + int n | ClockStep k \<Rightarrow> clock st + k | _ \<Rightarrow> clock st)"
  by (cases e)
     (auto simp: on_create_def createSession_def on_start_def on_next_def on_join_def
        on_answer_def on_disconnect_def on_timeout_def on_clock_step_def putSession_def Let_def
        split: option.splits prod.splits sum.splits)

lemma clock_step_forward: "clock_forward e \<Longrightarrow> clock st \<le> clock (fst (step e st))"
  by (auto simp: clock_step split: event.splits)

lemma timed_mono: "timed_ok now s \<Longrightarrow> now \<le> now' \<Longrightarrow> timed_ok now' s"
  by (fastforce simp: timed_ok_def)

lemma nextQuestion_timed:
  assumes "\<forall>e\<in>set (players s). player_ok (snd e)" "\<forall>q\<in>set (questions s). durationMs q \<noteq> 0"
  shows "timed_ok now (fst (nextQuestion s now))"
proof (cases "currentQuestion (s\<lparr>questionIdx := questionIdx s + 1\<rparr>)")
  case None
  then have "currentQuestion (s\<lparr>timer := None, questionIdx := questionIdx s + 1\<rparr>) = None"
    by (auto simp: currentQuestion_def Let_def split: if_splits)
  with None assms show ?thesis
    by (simp add: nextQuestion_None timed_ok_def)
next
  case (Some q)
  with assms show ?thesis
    by (simp add: nextQuestion_Some timed_ok_def)
qed

lemma timed_positive:
  assumes "timed_ok now s" "currentQuestion s = Some q" "\<not> late s now"
  shows "0 < durationMs q"
proof -
  from assms(1,2) obtain dl where dl: "deadline s = Some dl" "dl \<le> now + durationMs q"
    by (auto simp: timed_ok_def)
  from assms(1,2) have "durationMs q \<noteq> 0"
    by (auto simp: timed_ok_def dest: currentQuestion_mem)
  with assms(3) dl show ?thesis by (auto simp: late_def)
qed

lemma answer_timed:
  assumes t: "timed_ok now s" and p: "map_of (players s) sid = Some p"
    and r: "scoreAnswer s p a now = (x, p')"
  shows "timed_ok now (s\<lparr>players := AList.update sid p' (players s)\<rparr>)"
proof -
  from t p have ok: "player_ok p" by (auto simp: timed_ok_def dest!: map_of_SomeD)
  have "player_ok p'"
  proof (rule scoreAnswer_player_ok [OF ok r])
    fix q assume "currentQuestion s = Some q" "\<not> late s now"
    with t show "0 < durationMs q" by (rule timed_positive)
  qed
  with t show ?thesis
    by (auto simp: timed_ok_def dest!: update_set)
qed

lemma timed_step:
  assumes every: "\<forall>x\<in>set (SESSIONS st). timed_ok (clock st) (snd x)" and fw: "clock_forward e"
  shows "\<forall>x\<in>set (SESSIONS (fst (step e st))). timed_ok (clock (fst (step e st))) (snd x)"
proof (rule step_sessions [OF every])
  let ?now' = "clock (fst (step e st))"
  have le: "clock st \<le> ?now'" using fw by (rule clock_step_forward)
  fix s
  assume s: "timed_ok (clock st) s"
  from s le show "timed_ok ?now' s" by (rule timed_mono)
  have "timed_ok (clock st) (fst (nextQuestion s (clock st)))"
    using s by (intro nextQuestion_timed) (simp_all add: timed_ok_def)
  then show "timed_ok ?now' (fst (nextQuestion s (clock st)))" using le by (rule timed_mono)
  show "timed_ok ?now' (dropPlayer sid s)" for sid
    using timed_mono [OF s le] by (auto simp: timed_ok_def dropPlayer_def dest!: delete_set)
  show "timed_ok ?now' (fst (addPlayer s sid n u))" for sid n u
    using timed_mono [OF s le]
    by (auto simp: timed_ok_def addPlayer_def Let_def player_ok_def dest!: update_set)
  show "timed_ok ?now' (s\<lparr>players := AList.update sid p' (players s)\<rparr>)"
    if "map_of (players s) sid = Some p" "scoreAnswer s p a (clock st) = (Inr res, p')"
    for sid p a res p'
    using answer_timed [OF s that] le by (rule timed_mono)
  show "timed_ok ?now' (fst (nextQuestion (s\<lparr>questions := map mkQuestion qs, questionIdx := - 1\<rparr>) (clock st)))"
    if "e = SessionStart sid pn qs" for sid pn qs
  proof -
    have "timed_ok (clock st) (fst (nextQuestion (s\<lparr>questions := map mkQuestion qs, questionIdx := - 1\<rparr>) (clock st)))"
      using s by (intro nextQuestion_timed) (auto simp: timed_ok_def mkQuestion_duration)
    then show ?thesis using le by (rule timed_mono)
  qed
  show "timed_ok ?now' (shiftTimer k s)" if "e = ClockStep k" for k
  proof -
    from that fw have k: "0 \<le> k" by simp
    from that have "?now' = clock st + k" by (simp add: on_clock_step_def)
    with s k show ?thesis
      by (fastforce simp: timed_ok_def shiftTimer_def)
  qed
next
  fix sid pn u
  show "timed_ok (clock (fst (step e st))) \<lparr>s_id = u, s_pin = pn, hostSocketId = sid, players = [],
                questions = [], questionIdx = - 1, deadline = None, timer = None\<rparr>"
    by (simp add: timed_ok_def currentQuestion_def)
qed

lemma timed_run':
  "\<forall>x\<in>set (SESSIONS st). timed_ok (clock st) (snd x) \<Longrightarrow> list_all clock_forward evs \<Longrightarrow>
   \<forall>x\<in>set (SESSIONS (run evs st)). timed_ok (clock (run evs st)) (snd x)"
proof (induction evs arbitrary: st)
  case Nil
  then show ?case by simp
next
  case (Cons e evs)
  from Cons.prems have "\<forall>x\<in>set (SESSIONS (fst (step e st))). timed_ok (clock (fst (step e st))) (snd x)"
    by (intro timed_step) simp_all
  with Cons.prems show ?case by (simp add: Cons.IH)
qed

lemma timed_run:
  "list_all clock_forward evs \<Longrightarrow> map_of (SESSIONS (run evs (init t0))) pn = Some s \<Longrightarrow>
   timed_ok (clock (run evs (init t0))) s"
  using timed_run' [of "init t0" evs] by (auto simp: init_def dest!: map_of_SomeD)

lemma mkQuestion_positive: "duration_nonneg qu \<Longrightarrow> 0 < durationMs (mkQuestion qu)"
  by (cases qu) (auto simp: mkQuestion_def duration_nonneg_def split: option.splits)

lemma nextQuestion_positive: "positive_ok s \<Longrightarrow> positive_ok (fst (nextQuestion s now))"
  by (cases "currentQuestion (s\<lparr>questionIdx := questionIdx s + 1\<rparr>)")
     (simp_all add: nextQuestion_None nextQuestion_Some positive_ok_def)

lemma answer_positive:
  assumes t: "positive_ok s" and p: "map_of (players s) sid = Some p"
    and r: "scoreAnswer s p a now = (x, p')"
  shows "positive_ok (s\<lparr>players := AList.update sid p' (players s)\<rparr>)"
proof -
  from t p have ok: "player_ok p" by (auto simp: positive_ok_def dest!: map_of_SomeD)
  have "player_ok p'"
  proof (rule scoreAnswer_player_ok [OF ok r])
    fix q assume "currentQuestion s = Some q"
    with t show "0 < durationMs q" by (auto simp: positive_ok_def dest: currentQuestion_mem)
  qed
  with t show ?thesis
    by (auto simp: positive_ok_def dest!: update_set)
qed

lemma positive_step:
  assumes every: "\<forall>x\<in>set (SESSIONS st). positive_ok (snd x)" and nn: "durations_nonneg e"
  shows "\<forall>x\<in>set (SESSIONS (fst (step e st))). positive_ok (snd x)"
proof (rule step_sessions [OF every])
  fix s
  assume s: "positive_ok s"
  then show "positive_ok s" .
  from s show "positive_ok (fst (nextQuestion s (clock st)))" by (rule nextQuestion_positive)
  show "positive_ok (dropPlayer sid s)" for sid
    using s by (auto simp: positive_ok_def dropPlayer_def dest!: delete_set)
  show "positive_ok (fst (addPlayer s sid n u))" for sid n u
    using s by (auto simp: positive_ok_def addPlayer_def Let_def player_ok_def dest!: update_set)
  show "positive_ok (s\<lparr>players := AList.update sid p' (players s)\<rparr>)"
    if "map_of (players s) sid = Some p" "scoreAnswer s p a (clock st) = (Inr res, p')"
    for sid p a res p'
    using s that by (rule answer_positive)
  show "positive_ok (fst (nextQuestion (s\<lparr>questions := map mkQuestion qs, questionIdx := - 1\<rparr>) (clock st)))"
    if "e = SessionStart sid pn qs" for sid pn qs
  proof -
    from that nn have "list_all duration_nonneg qs" by simp
    then have "\<forall>q\<in>set (map mkQuestion qs). 0 < durationMs q"
      by (auto simp: list_all_iff mkQuestion_positive)
    with s show ?thesis
      by (intro nextQuestion_positive) (simp add: positive_ok_def)
  qed
  show "positive_ok (shiftTimer k s)" for k
    using s by (simp add: positive_ok_def shiftTimer_def)
next
  fix sid pn u
  show "positive_ok \<lparr>s_id = u, s_pin = pn, hostSocketId = sid, players = [],
                questions = [], questionIdx = - 1, deadline = None, timer = None\<rparr>"
    by (simp add: positive_ok_def)
qed

lemma positive_run':
  "\<forall>x\<in>set (SESSIONS st). positive_ok (snd x) \<Longrightarrow> list_all durations_nonneg evs \<Longrightarrow>
   \<forall>x\<in>set (SESSIONS (run evs st)). positive_ok (snd x)"
proof (induction evs arbitrary: st)
  case Nil
  then show ?case by simp
next
  case (Cons e evs)
  from Cons.prems have "\<forall>x\<in>set (SESSIONS (fst (step e st))). positive_ok (snd x)"
    by (intro positive_step) simp_all
  with Cons.prems show ?case by (simp add: Cons.IH)
qed

lemma positive_run:
  "list_all durations_nonneg evs \<Longrightarrow> map_of (SESSIONS (run evs (init t0))) pn = Some s \<Longrightarrow>
   positive_ok s"
  using positive_run' [of "init t0" evs] by (auto simp: init_def dest!: map_of_SomeD)

section \<open>Scores\<close>

text \<open>
  C3, as stated, fails: a question of duration \<open>-7\<close> is started, the clock is set back
  by 57 ms, and P1 answers correctly, 50 ms before the deadline. The time bonus is
  \<open>\<lfloor>50 / (-7) * 500\<rfloor> = -3572\<close> and the score \<open>1000 - 3572 + 100 = -2472\<close>.
\<close>

theorem score_negative_counterexample:
  "score (playerAt ''123456'' ''sockP1''
     (run (scenarioNegative @ [Answer ''sockP1'' ''123456'' ''Hello'']) (init 1000))) = - 2472"
  by code_simp

text \<open>
  C3, amended. After any sequence of events in which the clock is never set back, or
  in which no question is given a negative duration, the score of every participant
  of every registered session is a non-negative integer. (Durations are integers and
  the arithmetic is exact, as everywhere in this model.)
\<close>

theorem score_never_negative:
  "list_all clock_forward evs \<or> list_all durations_nonneg evs \<Longrightarrow>
   map_of (SESSIONS (run evs (init t0))) pn = Some s \<Longrightarrow> map_of (players s) sid = Some p \<Longrightarrow>
   0 \<le> score p"
proof -
  assume h: "list_all clock_forward evs \<or> list_all durations_nonneg evs"
    and s: "map_of (SESSIONS (run evs (init t0))) pn = Some s"
    and p: "map_of (players s) sid = Some p"
  from h s have "\<forall>e\<in>set (players s). player_ok (snd e)"
    using timed_run [of evs t0 pn s] positive_run [of evs t0 pn s]
    by (auto simp: timed_ok_def positive_ok_def)
  with p have "player_ok p" by (auto dest!: map_of_SomeD)
  then show ?thesis by (simp add: player_ok_def)
qed

theorem score_never_negative_witness:
  "list_all clock_forward scenarioB \<and>
   map_of (SESSIONS (run scenarioB (init 1000))) ''123456'' =
     Some (sessionAt ''123456'' (run scenarioB (init 1000))) \<and>
   map_of (players (sessionAt ''123456'' (run scenarioB (init 1000)))) ''sockP1'' =
     Some (playerAt ''123456'' ''sockP1'' (run scenarioB (init 1000))) \<and>
   0 \<le> score (playerAt ''123456'' ''sockP1'' (run scenarioB (init 1000))) \<and>
   score (playerAt ''123456'' ''sockP1'' (run scenarioB (init 1000))) = 3000 \<and>
   list_all durations_nonneg scenarioBack \<and>
   map_of (SESSIONS (run scenarioBack (init 1000))) ''123456'' =
     Some (sessionAt ''123456'' (run scenarioBack (init 1000))) \<and>
   map_of (players (sessionAt ''123456'' (run scenarioBack (init 1000)))) ''sockP1'' =
     Some (playerAt ''123456'' ''sockP1'' (run scenarioBack (init 1000))) \<and>
   0 \<le> score (playerAt ''123456'' ''sockP1'' (run scenarioBack (init 1000))) \<and>
   score (playerAt ''123456'' ''sockP1'' (run scenarioBack (init 1000))) = 1766"
proof -
  have f: "list_all clock_forward scenarioB" by code_simp
  have h1: "map_of (SESSIONS (run scenarioB (init 1000))) ''123456'' =
     Some (sessionAt ''123456'' (run scenarioB (init 1000)))"
    by code_simp
  have h2: "map_of (players (sessionAt ''123456'' (run scenarioB (init 1000)))) ''sockP1'' =
     Some (playerAt ''123456'' ''sockP1'' (run scenarioB (init 1000)))"
    by code_simp
  have h3: "score (playerAt ''123456'' ''sockP1'' (run scenarioB (init 1000))) = 3000"
    by code_simp
  have g: "list_all durations_nonneg scenarioBack" by code_simp
  have k1: "map_of (SESSIONS (run scenarioBack (init 1000))) ''123456'' =
     Some (sessionAt ''123456'' (run scenarioBack (init 1000)))"
    by code_simp
  have k2: "map_of (players (sessionAt ''123456'' (run scenarioBack (init 1000)))) ''sockP1'' =
     Some (playerAt ''123456'' ''sockP1'' (run scenarioBack (init 1000)))"
    by code_simp
  have k3: "score (playerAt ''123456'' ''sockP1'' (run scenarioBack (init 1000))) = 1766"
    by code_simp
  from f have f': "list_all clock_forward scenarioB \<or> list_all durations_nonneg scenarioB" ..
  from g have g': "list_all clock_forward scenarioBack \<or> list_all durations_nonneg scenarioBack" ..
  from f g h1 h2 h3 k1 k2 k3
    score_never_negative [OF f' h1 h2] score_never_negative [OF g' k1 k2]
  show ?thesis by blast
qed

section \<open>The question index\<close>

text \<open>
  C5, as stated, fails: a session of one question ends on its timer with index 1, one
  past the last valid index; the host then asks for the next question and the index is
  2, which is none of \<open>-1\<close>, a valid index, or exactly one past the last.
\<close>

theorem index_overrun_counterexample:
  "questionIdx (sessionAt ''123456'' (run scenarioOverrun (init 1000))) = 2 \<and>
   length (questions (sessionAt ''123456'' (run scenarioOverrun (init 1000)))) = 1 \<and>
   \<not> index_as_specified (sessionAt ''123456'' (run scenarioOverrun (init 1000)))"
  by code_simp

lemma nextQuestion_idx: "questionIdx (fst (nextQuestion s now)) = questionIdx s + 1"
  by (cases "currentQuestion (s\<lparr>questionIdx := questionIdx s + 1\<rparr>)")
     (simp_all add: nextQuestion_None nextQuestion_Some)

text \<open>
  C5, amended. In every reachable state the index of a session is \<open>-1\<close>, a valid
  index, or at least the number of questions; it is a valid index whenever a timer is
  pending; and every call of \<^const>\<open>nextQuestion\<close> adds exactly one to it, also
  after the end.
\<close>

theorem index_range:
  "(map_of (SESSIONS (run evs (init t0))) pn = Some s \<longrightarrow>
      (questionIdx s = - 1 \<or>
       (0 \<le> questionIdx s \<and> questionIdx s < int (length (questions s))) \<or>
       int (length (questions s)) \<le> questionIdx s) \<and>
      (timer s \<noteq> None \<longrightarrow> 0 \<le> questionIdx s \<and> questionIdx s < int (length (questions s)))) \<and>
   questionIdx (fst (nextQuestion x now)) = questionIdx x + 1"
proof (intro conjI impI)
  assume s: "map_of (SESSIONS (run evs (init t0))) pn = Some s"
  then have ok: "session_ok s" by (simp add: reachable_session)
  then have "- 1 \<le> questionIdx s" by (simp add: session_ok_def)
  then show "questionIdx s = - 1 \<or>
       (0 \<le> questionIdx s \<and> questionIdx s < int (length (questions s))) \<or>
       int (length (questions s)) \<le> questionIdx s" by arith
  assume "timer s \<noteq> None"
  with ok obtain q where "currentQuestion s = Some q" by (auto simp: session_ok_def)
  then show "0 \<le> questionIdx s" "questionIdx s < int (length (questions s))"
    by (auto simp: currentQuestion_def Let_def split: if_splits)
next
  show "questionIdx (fst (nextQuestion x now)) = questionIdx x + 1" by (rule nextQuestion_idx)
qed

theorem index_range_witness:
  "map_of (SESSIONS (run scenarioOverrun (init 1000))) ''123456'' =
     Some (sessionAt ''123456'' (run scenarioOverrun (init 1000))) \<and>
   int (length (questions (sessionAt ''123456'' (run scenarioOverrun (init 1000)))))
     \<le> questionIdx (sessionAt ''123456'' (run scenarioOverrun (init 1000))) \<and>
   map_of (SESSIONS (run scenarioA (init 1000))) ''123456'' =
     Some (sessionAt ''123456'' (run scenarioA (init 1000))) \<and>
   timer (sessionAt ''123456'' (run scenarioA (init 1000))) \<noteq> None \<and>
   0 \<le> questionIdx (sessionAt ''123456'' (run scenarioA (init 1000))) \<and>
   questionIdx (sessionAt ''123456'' (run scenarioA (init 1000)))
     < int (length (questions (sessionAt ''123456'' (run scenarioA (init 1000)))))"
proof -
  have h1: "map_of (SESSIONS (run scenarioOverrun (init 1000))) ''123456'' =
     Some (sessionAt ''123456'' (run scenarioOverrun (init 1000)))"
    by code_simp
  have h2: "questionIdx (sessionAt ''123456'' (run scenarioOverrun (init 1000))) = 2"
    "length (questions (sessionAt ''123456'' (run scenarioOverrun (init 1000)))) = 1"
    by code_simp+
  have h3: "map_of (SESSIONS (run scenarioA (init 1000))) ''123456'' =
     Some (sessionAt ''123456'' (run scenarioA (init 1000)))"
    by code_simp
  have h4: "timer (sessionAt ''123456'' (run scenarioA (init 1000))) \<noteq> None"
    by code_simp
  from h1 h2 h3 h4
    index_range [of scenarioOverrun 1000 "''123456''" "sessionAt ''123456'' (run scenarioOverrun (init 1000))"]
    index_range [of scenarioA 1000 "''123456''" "sessionAt ''123456'' (run scenarioA (init 1000))"]
  show ?thesis by simp
qed

section \<open>The time bonus awarded\<close>

lemma late_iff: "deadline s = Some dl \<Longrightarrow> late s now = (dl = 0 \<or> dl < now)"
  by (simp add: late_def)








section \<open>The auto-advance timer\<close>










text \<open>
  The earlier revision asks for a delay of exactly the duration: no margin.
\<close>

lemma nextQuestion_legacy_delay:
  assumes "nextQuestion_legacy s now = (s', Ok, evs)"
  shows "\<exists>q t. currentQuestion s' = Some q \<and> timer s' = Some t \<and>
           deadline s' = Some (now + durationMs q) \<and> delay t = durationMs q"
  using assms
  by (auto simp: nextQuestion_legacy_def endSession_def Let_def currentQuestion_def
      split: if_splits)

section \<open>The answer handler\<close>

lemma map_of_put: "map_of (SESSIONS (putSession pn s st)) pn = Some s"
  by (simp add: putSession_def update_conv')

lemma map_of_put_other: "pn' \<noteq> pn \<Longrightarrow> map_of (SESSIONS (putSession pn' s st)) pn = map_of (SESSIONS st) pn"
  by (simp add: putSession_def update_conv')

lemma late_players: "late (s\<lparr>players := ps\<rparr>) now = late s now"
  by (simp add: late_def)

lemma scoreAnswer_players: "scoreAnswer (s\<lparr>players := ps\<rparr>) p a now = scoreAnswer s p a now"
  by (auto simp: scoreAnswer_def late_players Let_def split: option.splits)

text \<open>
  C2. A participant with streak \<open>k\<close> submits, for the current question, which they have
  not answered, at or before its deadline, an answer that is not the correct value.
  The reply carries \<open>gained = 0\<close>, \<open>penalty = 100 * k\<close> and streak 0; the participant's
  score becomes \<open>max 0 (score - 100 * k)\<close>, the streak 0, and \<open>lastAnswer\<close> records
  \<open>correct = False\<close>, \<open>gained = 0\<close> and that penalty.
\<close>

theorem wrong_answer_penalty:
  assumes "map_of (SESSIONS st) pn = Some s" and "map_of (players s) sid = Some p"
    and "currentQuestion s = Some q" and "\<not> answered p q"
    and "deadline s = Some dl" and "dl \<noteq> 0" and "clock st \<le> dl"
    and "ans \<noteq> answer q" and "streak p = k"
  shows "step (Answer sid pn ans) st =
     (putSession pn
        (s\<lparr>players := AList.update sid
             (p\<lparr>score := max 0 (score p - 100 * k), streak := 0,
                lastAnswer := Some \<lparr>qid = q_id q, correct = False, gained = 0,
                  timeBonus = 0, streakBonus = 0, penalty = 100 * k\<rparr>\<rparr>) (players s)\<rparr>) st,
      [Reply sid (Answered False 0 (100 * k) (answer q) 0),
       emitLeaderboard
         (s\<lparr>players := AList.update sid
             (p\<lparr>score := max 0 (score p - 100 * k), streak := 0,
                lastAnswer := Some \<lparr>qid = q_id q, correct = False, gained = 0,
                  timeBonus = 0, streakBonus = 0, penalty = 100 * k\<rparr>\<rparr>) (players s)\<rparr>)]) \<and>
   playerAt pn sid (fst (step (Answer sid pn ans) st)) =
     p\<lparr>score := max 0 (score p - 100 * k), streak := 0,
       lastAnswer := Some \<lparr>qid = q_id q, correct = False, gained = 0,
         timeBonus = 0, streakBonus = 0, penalty = 100 * k\<rparr>\<rparr>"
proof -
  from assms have nl: "\<not> late s (clock st)" by (simp add: late_iff)
  have sc: "scoreAnswer s p ans (clock st) =
     (Inr \<lparr>r_isCorrect = False, r_gained = 0, r_penalty = Some (100 * k),
           r_correct = answer q, r_streak = 0\<rparr>,
      p\<lparr>score := max 0 (score p - 100 * k), streak := 0,
        lastAnswer := Some \<lparr>qid = q_id q, correct = False, gained = 0,
          timeBonus = 0, streakBonus = 0, penalty = 100 * k\<rparr>\<rparr>)"
    using scoreAnswer_wrong [OF assms(3) assms(4) nl assms(8)] assms(9) by simp
  from assms(1,2) sc show ?thesis
    by (simp add: on_answer_def Let_def penaltyOr0_def sessionAt_def playerAt_def map_of_put
        update_conv')
qed

theorem wrong_answer_penalty_witness:
  "map_of (SESSIONS (run scenarioB (init 1000))) ''123456'' =
     Some (sessionAt ''123456'' (run scenarioB (init 1000))) \<and>
   map_of (players (sessionAt ''123456'' (run scenarioB (init 1000)))) ''sockP1'' =
     Some (playerAt ''123456'' ''sockP1'' (run scenarioB (init 1000))) \<and>
   currentQuestion (sessionAt ''123456'' (run scenarioB (init 1000))) =
     Some (mkQuestion (helloQuestion, ''q-hello-2'')) \<and>
   \<not> answered (playerAt ''123456'' ''sockP1'' (run scenarioB (init 1000)))
      (mkQuestion (helloQuestion, ''q-hello-2'')) \<and>
   deadline (sessionAt ''123456'' (run scenarioB (init 1000))) = Some 25000 \<and>
   (25000::int) \<noteq> 0 \<and> clock (run scenarioB (init 1000)) \<le> 25000 \<and>
   ''Bye'' \<noteq> answer (mkQuestion (helloQuestion, ''q-hello-2'')) \<and>
   streak (playerAt ''123456'' ''sockP1'' (run scenarioB (init 1000))) = 2 \<and>
   score (playerAt ''123456'' ''sockP1'' (run scenarioB (init 1000))) = 3000 \<and>
   snd (step (Answer ''sockP1'' ''123456'' ''Bye'') (run scenarioB (init 1000))) ! 0 =
     Reply ''sockP1'' (Answered False 0 200 ''Hello'' 0) \<and>
   score (playerAt ''123456'' ''sockP1''
     (fst (step (Answer ''sockP1'' ''123456'' ''Bye'') (run scenarioB (init 1000))))) = 2800 \<and>
   streak (playerAt ''123456'' ''sockP1''
     (fst (step (Answer ''sockP1'' ''123456'' ''Bye'') (run scenarioB (init 1000))))) = 0"
proof -
  have h1: "map_of (SESSIONS (run scenarioB (init 1000))) ''123456'' =
     Some (sessionAt ''123456'' (run scenarioB (init 1000)))"
    by code_simp
  have h2: "map_of (players (sessionAt ''123456'' (run scenarioB (init 1000)))) ''sockP1'' =
     Some (playerAt ''123456'' ''sockP1'' (run scenarioB (init 1000)))"
    by code_simp
  have h3: "currentQuestion (sessionAt ''123456'' (run scenarioB (init 1000))) =
     Some (mkQuestion (helloQuestion, ''q-hello-2''))"
    by code_simp
  have h4: "\<not> answered (playerAt ''123456'' ''sockP1'' (run scenarioB (init 1000)))
      (mkQuestion (helloQuestion, ''q-hello-2''))"
    by code_simp
  have h5: "deadline (sessionAt ''123456'' (run scenarioB (init 1000))) = Some 25000"
    by code_simp
  have h6: "(25000::int) \<noteq> 0" by simp
  have h7: "clock (run scenarioB (init 1000)) \<le> 25000"
    by code_simp
  have h8: "''Bye'' \<noteq> answer (mkQuestion (helloQuestion, ''q-hello-2''))"
    by code_simp
  have h9: "streak (playerAt ''123456'' ''sockP1'' (run scenarioB (init 1000))) = 2"
    by code_simp
  have h10: "score (playerAt ''123456'' ''sockP1'' (run scenarioB (init 1000))) = 3000"
    by code_simp
  have h11: "answer (mkQuestion (helloQuestion, ''q-hello-2'')) = ''Hello''"
    by code_simp
  note w = wrong_answer_penalty [OF h1 h2 h3 h4 h5 h6 h7 h8 h9]
  note w1 = w [THEN conjunct1] and w2 = w [THEN conjunct2]
  have c1: "snd (step (Answer ''sockP1'' ''123456'' ''Bye'') (run scenarioB (init 1000))) ! 0 =
     Reply ''sockP1'' (Answered False 0 200 ''Hello'' 0)"
    unfolding w1 by (simp add: h11)
  have c2: "score (playerAt ''123456'' ''sockP1''
     (fst (step (Answer ''sockP1'' ''123456'' ''Bye'') (run scenarioB (init 1000))))) = 2800"
    unfolding w2 by (simp add: h10)
  have c3: "streak (playerAt ''123456'' ''sockP1''
     (fst (step (Answer ''sockP1'' ''123456'' ''Bye'') (run scenarioB (init 1000))))) = 0"
    unfolding w2 by simp
  from h1 h2 h3 h4 h5 h6 h7 h8 h9 h10 c1 c2 c3 show ?thesis
    by blast
qed

section \<open>Scenario A\<close>

lemmas handler_defs = init_def on_create_def createSession_def has_def on_start_def on_join_def
  on_answer_def scoreAnswer_def currentQuestion_def nextQuestion_def endSession_def mkQuestion_def
  putSession_def addPlayer_def orGuest_def answered_def late_def remainingMs_def timeBonus_of_def
  BASE_SCORE_def TIME_BONUS_MAX_def STREAK_STEP_def penaltyOr0_def emitLeaderboard_def
  leaderboard_def toRow_def Let_def

text \<open>
  C1, as stated, fails on the points: in Scenario A, with the answer submitted at the
  clock reading at which the question started, the reply carries 1600 points, not 1500.
\<close>

theorem scenarioA_gained_counterexample:
  "replyGained (hd (snd (step (Answer ''sockP1'' ''123456'' ''Hello'') (run scenarioA (init 1000)))))
     = Some 1600 \<and>
   replyGained (hd (snd (step (Answer ''sockP1'' ''123456'' ''Hello'') (run scenarioA (init 1000)))))
     \<noteq> Some 1500"
  by code_simp

text \<open>
  C1, amended. In Scenario A, at any positive clock reading and with no time elapsed
  since the question started, the reply to the answer "Hello" is \<open>ok\<close> with
  \<open>correct = True\<close>, streak 1 and 1600 points gained: 1000 base, 500 time bonus and
  100 for the streak of 1. The leaderboard that follows shows the same.
\<close>

theorem scenarioA_reply:
  "0 < t0 \<Longrightarrow>
   snd (step (Answer ''sockP1'' ''123456'' ''Hello'') (run scenarioA (init t0))) =
     [Reply ''sockP1'' (Answered True 1600 0 ''Hello'' 1),
      Emit ''123456'' (Leaderboard
        [\<lparr>l_id = ''player-1'', l_name = ''P1'', l_score = 1600,
          l_lastAnswer = Some \<lparr>qid = ''q-hello'', correct = True, gained = 1600,
            timeBonus = 500, streakBonus = 100, penalty = 0\<rparr>\<rparr>])] \<and>
   BASE_SCORE + timeBonus_of (remainingMs (t0 + 15000) t0) 15000 + 1 * STREAK_STEP = 1600"
  by (simp add: scenarioA_def helloQuestion_def handler_defs)

theorem scenarioA_reply_witness:
  "(0::int) < 1000 \<and>
   snd (step (Answer ''sockP1'' ''123456'' ''Hello'') (run scenarioA (init 1000))) =
     [Reply ''sockP1'' (Answered True 1600 0 ''Hello'' 1),
      Emit ''123456'' (Leaderboard
        [\<lparr>l_id = ''player-1'', l_name = ''P1'', l_score = 1600,
          l_lastAnswer = Some \<lparr>qid = ''q-hello'', correct = True, gained = 1600,
            timeBonus = 500, streakBonus = 100, penalty = 0\<rparr>\<rparr>])]"
  using scenarioA_reply [of 1000] by simp

section \<open>Rejected requests\<close>

lemma on_answer_fail:
  assumes "on_answer sid pn a st = (st1, outs)" "Reply sid (Fail r) \<in> set outs"
  shows "st1 = st \<and> outs = [Reply sid (Fail r)]"
  using assms
  by (auto simp: on_answer_def Let_def emitLeaderboard_def
      split: option.splits prod.splits sum.splits)

lemma on_answer_ok:
  assumes "on_answer sid pn a st = (st2, Reply sid (Answered c g pen right k) # outs)"
  shows "\<exists>s p res p'. map_of (SESSIONS st) pn = Some s \<and> map_of (players s) sid = Some p \<and>
           scoreAnswer s p a (clock st) = (Inr res, p') \<and>
           st2 = putSession pn (s\<lparr>players := AList.update sid p' (players s)\<rparr>) st"
  using assms
  by (auto simp: on_answer_def Let_def split: option.splits prod.splits sum.splits)

lemma pickPin_free: "pickPin m ds = Some d \<Longrightarrow> map_of m d = None"
  by (induction ds) (auto simp: has_def split: if_splits)

lemma map_of_map_filter_keep:
  "map_of m k = Some v \<Longrightarrow> P (k, v) \<Longrightarrow>
   map_of (map (\<lambda>e. (fst e, f (snd e))) (filter P m)) k = Some (f v)"
  by (induction m) (auto split: if_splits)

lemma map_of_map_snd: "map_of (map (\<lambda>e. (fst e, f (snd e))) m) k = map_option f (map_of m k)"
  by (induction m) auto

lemma on_disconnect_fst: "SESSIONS (fst (on_disconnect sid st)) = fst (disconnect_loop sid (SESSIONS st))"
  by (simp add: on_disconnect_def split: prod.splits)

text \<open>
  An answer of socket \<open>sid\<close> to the current question of the session at \<open>pn\<close> that is
  on record stays on record over an event that is \<^const>\<open>undisturbed\<close>.
\<close>

lemma recorded_step:
  assumes s: "map_of (SESSIONS st) pn = Some s" and h: "hostSocketId s = h"
    and p: "map_of (players s) sid = Some p" and q: "currentQuestion s = Some q"
    and a: "answered p q" and u: "undisturbed sid pn h e"
  shows "\<exists>s' p'. map_of (SESSIONS (fst (step e st))) pn = Some s' \<and> hostSocketId s' = h \<and>
           map_of (players s') sid = Some p' \<and> currentQuestion s' = Some q \<and> answered p' q"
proof (cases e)
  case (Tick n)
  with assms show ?thesis by auto
next
  case (SessionCreate sid' draws u')
  show ?thesis
  proof (cases "pickPin (SESSIONS st) draws")
    case None
    with SessionCreate assms show ?thesis by (auto simp: on_create_def createSession_def)
  next
    case (Some pn')
    with s have "pn' \<noteq> pn" by (auto dest: pickPin_free)
    with Some SessionCreate assms show ?thesis
      by (auto simp: on_create_def createSession_def Let_def update_conv')
  qed
next
  case (SessionStart sid' pn' qs)
  with u have d: "pn' \<noteq> pn \<or> sid' \<noteq> h" by auto
  show ?thesis
  proof (cases "pn' = pn")
    case True
    with d SessionStart assms show ?thesis by (auto simp: on_start_def)
  next
    case False
    with SessionStart assms show ?thesis
      by (auto simp: on_start_def Let_def map_of_put_other split: option.splits prod.splits)
  qed
next
  case (QuestionNext sid' pn')
  with u have d: "pn' \<noteq> pn \<or> sid' \<noteq> h" by auto
  show ?thesis
  proof (cases "pn' = pn")
    case True
    with d QuestionNext assms show ?thesis by (auto simp: on_next_def)
  next
    case False
    with QuestionNext assms show ?thesis
      by (auto simp: on_next_def Let_def map_of_put_other split: option.splits prod.splits)
  qed
next
  case (Join sid' pn' n u')
  with u have d: "pn' \<noteq> pn \<or> sid' \<noteq> sid" by auto
  show ?thesis
  proof (cases "pn' = pn")
    case True
    with d have "sid' \<noteq> sid" by simp
    with True Join assms show ?thesis
      by (auto simp: on_join_def addPlayer_def Let_def map_of_put update_conv')
  next
    case False
    with Join assms show ?thesis
      by (auto simp: on_join_def Let_def map_of_put_other split: option.splits prod.splits)
  qed
next
  case (Answer sid' pn' a')
  show ?thesis
  proof (cases "pn' = pn")
    case False
    with Answer assms show ?thesis
      by (auto simp: on_answer_def Let_def map_of_put_other split: option.splits prod.splits sum.splits)
  next
    case True
    show ?thesis
    proof (cases "sid' = sid")
      case True
      with \<open>pn' = pn\<close> Answer assms show ?thesis
        by (auto simp: on_answer_def scoreAnswer_already)
    next
      case False
      with \<open>pn' = pn\<close> Answer assms show ?thesis
        by (auto simp: on_answer_def Let_def map_of_put update_conv'
            split: option.splits prod.splits sum.splits)
    qed
  qed
next
  case (Disconnect sid')
  with u have d: "sid' \<noteq> sid" "sid' \<noteq> h" by auto
  have "map_of (SESSIONS (fst (on_disconnect sid' st))) pn = Some (dropPlayer sid' s)"
    using s h d
    by (simp add: on_disconnect_fst disconnect_loop_fst map_of_map_filter_keep)
  moreover have "map_of (players (dropPlayer sid' s)) sid = Some p"
    using p d by (simp add: dropPlayer_def delete_conv')
  moreover have "currentQuestion (dropPlayer sid' s) = Some q" "hostSocketId (dropPlayer sid' s) = h"
    using q h by (simp_all add: dropPlayer_def)
  ultimately show ?thesis using Disconnect a by auto
next
  case (Timeout pn')
  with u have "pn' \<noteq> pn" by auto
  with Timeout assms show ?thesis
    by (auto simp: on_timeout_def Let_def map_of_put_other split: option.splits prod.splits)
next
  case (ClockStep k)
  with s have "map_of (SESSIONS (fst (step e st))) pn = Some (shiftTimer k s)"
    by (simp add: on_clock_step_def map_of_map_snd)
  moreover have "players (shiftTimer k s) = players s" "hostSocketId (shiftTimer k s) = hostSocketId s"
    by (simp_all add: shiftTimer_def)
  ultimately show ?thesis using h p q a by auto
qed

lemma recorded_run:
  assumes "map_of (SESSIONS st) pn = Some s" "hostSocketId s = h"
    "map_of (players s) sid = Some p" "currentQuestion s = Some q"
    "answered p q" "list_all (undisturbed sid pn h) evs"
  shows "\<exists>s' p'. map_of (SESSIONS (run evs st)) pn = Some s' \<and> hostSocketId s' = h \<and>
           map_of (players s') sid = Some p' \<and> currentQuestion s' = Some q \<and> answered p' q"
  using assms
proof (induction evs arbitrary: st s p)
  case Nil
  then show ?case by simp
next
  case (Cons e evs)
  from Cons.prems have "undisturbed sid pn h e" by simp
  with Cons.prems obtain s' p' where
    "map_of (SESSIONS (fst (step e st))) pn = Some s'" "hostSocketId s' = h"
    "map_of (players s') sid = Some p'" "currentQuestion s' = Some q" "answered p' q"
    using recorded_step [of st pn s h sid p q e] by blast
  with Cons.prems Cons.IH [of "fst (step e st)" s' p'] show ?case by simp
qed

lemma on_answer_again:
  assumes "on_answer sid pn a st = (st2, Reply sid (Answered c g pen right k) # outs)"
    and "map_of (SESSIONS st) pn = Some s0"
    and "list_all (undisturbed sid pn (hostSocketId s0)) evs"
  shows "on_answer sid pn a' (run evs st2) = (run evs st2, [Reply sid (Fail already_answered)])"
proof -
  from assms(1) obtain s p res p' where s: "map_of (SESSIONS st) pn = Some s"
    and p: "map_of (players s) sid = Some p"
    and r: "scoreAnswer s p a (clock st) = (Inr res, p')"
    and st2: "st2 = putSession pn (s\<lparr>players := AList.update sid p' (players s)\<rparr>) st"
    using on_answer_ok by blast
  from s assms(2) have s0: "s0 = s" by simp
  let ?s' = "s\<lparr>players := AList.update sid p' (players s)\<rparr>"
  from r obtain q where q: "currentQuestion s = Some q" "answered p' q"
    using scoreAnswer_Inr_answered by blast
  have 1: "map_of (SESSIONS st2) pn = Some ?s'" by (simp add: st2 map_of_put)
  have 2: "map_of (players ?s') sid = Some p'" by (simp add: update_conv')
  have 3: "currentQuestion ?s' = Some q" using q by simp
  have 4: "hostSocketId ?s' = hostSocketId s0" by (simp add: s0)
  from recorded_run [OF 1 4 2 3 q(2) assms(3)]
  obtain s'' p'' where "map_of (SESSIONS (run evs st2)) pn = Some s''"
    "map_of (players s'') sid = Some p''" "currentQuestion s'' = Some q" "answered p'' q"
    by blast
  then show ?thesis by (simp add: on_answer_def scoreAnswer_already)
qed

text \<open>
  C4, as stated, fails in its last clause. In Scenario A, P1 answers "Hello" and is
  scored; P1 joins again and answers the same question again, and is scored again,
  with 1600 points. And in a session of two questions with ids of the host's, P1
  answers both; the host starts the session again on the same questions, and the
  answer of P1, the same player record, to the first question is scored again:
  1800 points, the score going from 3300 to 5100.
\<close>

theorem resubmit_counterexample:
  "hd (snd (step (Answer ''sockP1'' ''123456'' ''Hello'') (run scenarioA (init 1000)))) =
     Reply ''sockP1'' (Answered True 1600 0 ''Hello'' 1) \<and>
   q_id (the (currentQuestion (sessionAt ''123456'' (run scenarioA (init 1000))))) = ''q-hello'' \<and>
   q_id (the (currentQuestion (sessionAt ''123456'' (run scenarioRejoin (init 1000))))) = ''q-hello'' \<and>
   hd (snd (step (Answer ''sockP1'' ''123456'' ''Hello'') (run scenarioRejoin (init 1000)))) =
     Reply ''sockP1'' (Answered True 1600 0 ''Hello'' 1) \<and>
   hd (snd (step (Answer ''sockP1'' ''123456'' ''Hello'') (run (take 3 scenarioRestart) (init 1000)))) =
     Reply ''sockP1'' (Answered True 1600 0 ''Hello'' 1) \<and>
   q_id (the (currentQuestion (sessionAt ''123456'' (run (take 3 scenarioRestart) (init 1000)))))
     = ''q-1'' \<and>
   q_id (the (currentQuestion (sessionAt ''123456'' (run scenarioRestart (init 1000))))) = ''q-1'' \<and>
   p_id (playerAt ''123456'' ''sockP1'' (run scenarioRestart (init 1000))) = ''player-1'' \<and>
   score (playerAt ''123456'' ''sockP1'' (run scenarioRestart (init 1000))) = 3300 \<and>
   hd (snd (step (Answer ''sockP1'' ''123456'' ''Hello'') (run scenarioRestart (init 1000)))) =
     Reply ''sockP1'' (Answered True 1800 0 ''Hello'' 3) \<and>
   score (playerAt ''123456'' ''sockP1''
     (fst (step (Answer ''sockP1'' ''123456'' ''Hello'') (run scenarioRestart (init 1000))))) = 5100"
  by code_simp

text \<open>
  C4, amended. \<^const>\<open>scoreAnswer\<close> checks, in this order: no current question, already
  answered, too late; the first that fails gives the reason, and the call scores only
  when none fails. A call that fails returns the player as it was, and the handler
  then leaves the whole state as it was and sends the failure reply only. After an
  answer that was scored, a further answer of the same socket on the same pin is
  rejected as already answered and changes nothing, whatever has happened in between
  other than a new join of that socket to the session, a start or an advance of the
  session by its host, its timer firing, or the disconnection of that socket or of the
  host (\<^const>\<open>undisturbed\<close>).
\<close>

theorem submit_preconditions:
  "(currentQuestion s = None \<longrightarrow> scoreAnswer s p a now = (Inl no_question, p)) \<and>
   (currentQuestion s = Some q \<and> answered p q \<longrightarrow>
      scoreAnswer s p a now = (Inl already_answered, p)) \<and>
   (currentQuestion s = Some q \<and> \<not> answered p q \<and> late s now \<longrightarrow>
      scoreAnswer s p a now = (Inl too_late, p)) \<and>
   (currentQuestion s = Some q \<and> \<not> answered p q \<and> \<not> late s now \<longrightarrow>
      (\<exists>res p'. scoreAnswer s p a now = (Inr res, p'))) \<and>
   (scoreAnswer s p a now = (Inl r, p1) \<longrightarrow> p1 = p) \<and>
   (step (Answer sid pn a) st = (st1, outs) \<and> Reply sid (Fail r') \<in> set outs \<longrightarrow>
      st1 = st \<and> outs = [Reply sid (Fail r')]) \<and>
   (step (Answer sid pn a) st = (st2, Reply sid (Answered c g pen right k) # outs') \<and>
    map_of (SESSIONS st) pn = Some s0 \<and> list_all (undisturbed sid pn (hostSocketId s0)) evs \<longrightarrow>
      step (Answer sid pn a') (run evs st2) =
        (run evs st2, [Reply sid (Fail already_answered)]))"
proof (intro conjI impI)
  show "currentQuestion s = None \<Longrightarrow> scoreAnswer s p a now = (Inl no_question, p)"
    by (rule scoreAnswer_no_question)
  show "currentQuestion s = Some q \<and> answered p q \<Longrightarrow>
      scoreAnswer s p a now = (Inl already_answered, p)"
    by (simp add: scoreAnswer_already)
  show "currentQuestion s = Some q \<and> \<not> answered p q \<and> late s now \<Longrightarrow>
      scoreAnswer s p a now = (Inl too_late, p)"
    by (simp add: scoreAnswer_late)
  show "currentQuestion s = Some q \<and> \<not> answered p q \<and> \<not> late s now \<Longrightarrow>
      \<exists>res p'. scoreAnswer s p a now = (Inr res, p')"
    by (simp add: scoreAnswer_def Let_def)
  show "scoreAnswer s p a now = (Inl r, p1) \<Longrightarrow> p1 = p"
    by (rule scoreAnswer_Inl)
  show "step (Answer sid pn a) st = (st1, outs) \<and> Reply sid (Fail r') \<in> set outs \<Longrightarrow> st1 = st"
    using on_answer_fail by fastforce
  show "step (Answer sid pn a) st = (st1, outs) \<and> Reply sid (Fail r') \<in> set outs \<Longrightarrow>
      outs = [Reply sid (Fail r')]"
    using on_answer_fail by fastforce
  show "step (Answer sid pn a) st = (st2, Reply sid (Answered c g pen right k) # outs') \<and>
    map_of (SESSIONS st) pn = Some s0 \<and> list_all (undisturbed sid pn (hostSocketId s0)) evs \<Longrightarrow>
      step (Answer sid pn a') (run evs st2) =
        (run evs st2, [Reply sid (Fail already_answered)])"
    using on_answer_again [of sid pn a st st2 c g pen right k outs' s0 evs a'] by simp
qed

theorem submit_preconditions_witness:
  "currentQuestion (sessionAt ''123456'' (run scenarioOverrun (init 1000))) = None \<and>
   scoreAnswer (sessionAt ''123456'' (run scenarioOverrun (init 1000)))
     (playerAt ''123456'' ''sockP1'' (run scenarioA (init 1000))) ''Hello'' 20000 =
     (Inl no_question, playerAt ''123456'' ''sockP1'' (run scenarioA (init 1000))) \<and>
   currentQuestion (sessionAt ''123456'' (run scenarioA (init 1000))) =
     Some (mkQuestion (helloQuestion, ''q-hello'')) \<and>
   \<not> answered (playerAt ''123456'' ''sockP1'' (run scenarioA (init 1000)))
     (mkQuestion (helloQuestion, ''q-hello'')) \<and>
   late (sessionAt ''123456'' (run scenarioA (init 1000))) 16001 \<and>
   scoreAnswer (sessionAt ''123456'' (run scenarioA (init 1000)))
     (playerAt ''123456'' ''sockP1'' (run scenarioA (init 1000))) ''Hello'' 16001 =
     (Inl too_late, playerAt ''123456'' ''sockP1'' (run scenarioA (init 1000))) \<and>
   step (Answer ''sockP1'' ''123456'' ''Hello'') (run scenarioA (init 1000)) =
     (fst (step (Answer ''sockP1'' ''123456'' ''Hello'') (run scenarioA (init 1000))),
      Reply ''sockP1'' (Answered True 1600 0 ''Hello'' 1) #
      tl (snd (step (Answer ''sockP1'' ''123456'' ''Hello'') (run scenarioA (init 1000))))) \<and>
   map_of (SESSIONS (run scenarioA (init 1000))) ''123456'' =
     Some (sessionAt ''123456'' (run scenarioA (init 1000))) \<and>
   list_all (undisturbed ''sockP1'' ''123456''
     (hostSocketId (sessionAt ''123456'' (run scenarioA (init 1000))))) scenarioQuiet \<and>
   step (Answer ''sockP1'' ''123456'' ''Bye'')
     (run scenarioQuiet
        (fst (step (Answer ''sockP1'' ''123456'' ''Hello'') (run scenarioA (init 1000))))) =
     (run scenarioQuiet
        (fst (step (Answer ''sockP1'' ''123456'' ''Hello'') (run scenarioA (init 1000)))),
      [Reply ''sockP1'' (Fail already_answered)])"
proof -
  let ?stA = "run scenarioA (init 1000)"
  let ?sA = "sessionAt ''123456'' ?stA"
  let ?pA = "playerAt ''123456'' ''sockP1'' ?stA"
  let ?sO = "sessionAt ''123456'' (run scenarioOverrun (init 1000))"
  let ?qA = "mkQuestion (helloQuestion, ''q-hello'')"
  have h1: "currentQuestion ?sO = None" by code_simp
  have h2: "currentQuestion ?sA = Some ?qA" by code_simp
  have h3: "\<not> answered ?pA ?qA" by code_simp
  have h4: "late ?sA 16001" by code_simp
  have h5: "step (Answer ''sockP1'' ''123456'' ''Hello'') ?stA =
     (fst (step (Answer ''sockP1'' ''123456'' ''Hello'') ?stA),
      Reply ''sockP1'' (Answered True 1600 0 ''Hello'' 1) #
      tl (snd (step (Answer ''sockP1'' ''123456'' ''Hello'') ?stA)))"
    by code_simp
  have h6: "map_of (SESSIONS ?stA) ''123456'' = Some ?sA" by code_simp
  have h7: "list_all (undisturbed ''sockP1'' ''123456'' (hostSocketId ?sA)) scenarioQuiet"
    by code_simp
  note a = submit_preconditions [where s = ?sO and p = ?pA and a = "''Hello''" and now = 20000]
  note b = submit_preconditions [where s = ?sA and p = ?pA and a = "''Hello''" and now = 16001
      and q = ?qA]
  note c = submit_preconditions [where sid = "''sockP1''" and pn = "''123456''" and a = "''Hello''"
      and st = ?stA and ?st2.0 = "fst (step (Answer ''sockP1'' ''123456'' ''Hello'') ?stA)"
      and c = True and g = 1600 and pen = 0 and right = "''Hello''" and k = 1
      and outs' = "tl (snd (step (Answer ''sockP1'' ''123456'' ''Hello'') ?stA))"
      and a' = "''Bye''" and ?s0.0 = ?sA and evs = scenarioQuiet]
  have c1: "scoreAnswer ?sO ?pA ''Hello'' 20000 = (Inl no_question, ?pA)"
    using a h1 by blast
  have c2: "scoreAnswer ?sA ?pA ''Hello'' 16001 = (Inl too_late, ?pA)"
    using b h2 h3 h4 by blast
  have c3: "step (Answer ''sockP1'' ''123456'' ''Bye'')
     (run scenarioQuiet (fst (step (Answer ''sockP1'' ''123456'' ''Hello'') ?stA))) =
     (run scenarioQuiet (fst (step (Answer ''sockP1'' ''123456'' ''Hello'') ?stA)),
      [Reply ''sockP1'' (Fail already_answered)])"
    using c h5 h6 h7 by blast
  from h1 h2 h3 h4 h5 h6 h7 c1 c2 c3 show ?thesis by blast
qed

text \<open>
  C8. A start or an advance request from a socket that is not the host of the session
  is answered \<open>not_host\<close> and leaves the whole state as it was. The host of a session
  is the socket whose create request made it.
\<close>

theorem not_host_rejected:
  "(map_of (SESSIONS st) pn = Some s \<and> hostSocketId s \<noteq> sid \<longrightarrow>
      step (SessionStart sid pn qs) st = (st, [Reply sid (Fail not_host)]) \<and>
      step (QuestionNext sid pn) st = (st, [Reply sid (Fail not_host)])) \<and>
   (step (SessionCreate h draws u) st = (st', [Reply h (Created pn' u')]) \<longrightarrow>
      (\<exists>s'. map_of (SESSIONS st') pn' = Some s' \<and> hostSocketId s' = h))"
proof (intro conjI impI)
  assume "map_of (SESSIONS st) pn = Some s \<and> hostSocketId s \<noteq> sid"
  then show "step (SessionStart sid pn qs) st = (st, [Reply sid (Fail not_host)])"
    and "step (QuestionNext sid pn) st = (st, [Reply sid (Fail not_host)])"
    by (simp_all add: on_start_def on_next_def)
next
  assume "step (SessionCreate h draws u) st = (st', [Reply h (Created pn' u')])"
  then show "\<exists>s'. map_of (SESSIONS st') pn' = Some s' \<and> hostSocketId s' = h"
    by (auto simp: on_create_def createSession_def Let_def update_conv' split: option.splits)
qed

theorem not_host_rejected_witness:
  "map_of (SESSIONS (run scenarioA (init 1000))) ''123456'' =
     Some (sessionAt ''123456'' (run scenarioA (init 1000))) \<and>
   hostSocketId (sessionAt ''123456'' (run scenarioA (init 1000))) \<noteq> ''sockP1'' \<and>
   step (SessionStart ''sockP1'' ''123456'' [(byeQuestion, ''q-2'')]) (run scenarioA (init 1000)) =
     (run scenarioA (init 1000), [Reply ''sockP1'' (Fail not_host)]) \<and>
   step (QuestionNext ''sockP1'' ''123456'') (run scenarioA (init 1000)) =
     (run scenarioA (init 1000), [Reply ''sockP1'' (Fail not_host)]) \<and>
   step (SessionCreate ''host'' [''123456''] ''session-1'') (init 1000) =
     (fst (step (SessionCreate ''host'' [''123456''] ''session-1'') (init 1000)),
      [Reply ''host'' (Created ''123456'' ''session-1'')]) \<and>
   hostSocketId (sessionAt ''123456''
     (fst (step (SessionCreate ''host'' [''123456''] ''session-1'') (init 1000)))) = ''host''"
proof -
  have h1: "map_of (SESSIONS (run scenarioA (init 1000))) ''123456'' =
     Some (sessionAt ''123456'' (run scenarioA (init 1000)))"
    by code_simp
  have h2: "hostSocketId (sessionAt ''123456'' (run scenarioA (init 1000))) \<noteq> ''sockP1''"
    by code_simp
  have h3: "step (SessionCreate ''host'' [''123456''] ''session-1'') (init 1000) =
     (fst (step (SessionCreate ''host'' [''123456''] ''session-1'') (init 1000)),
      [Reply ''host'' (Created ''123456'' ''session-1'')])"
    by code_simp
  have h4: "hostSocketId (sessionAt ''123456''
     (fst (step (SessionCreate ''host'' [''123456''] ''session-1'') (init 1000)))) = ''host''"
    by code_simp
  note a = not_host_rejected [where st = "run scenarioA (init 1000)" and pn = "''123456''"
      and s = "sessionAt ''123456'' (run scenarioA (init 1000))" and sid = "''sockP1''"
      and qs = "[(byeQuestion, ''q-2'')]", THEN conjunct1]
  from a h1 h2 h3 h4 show ?thesis by blast
qed

section \<open>Disconnecting\<close>

lemma map_of_map_filter:
  "distinct (map fst m) \<Longrightarrow>
   map_of (map (\<lambda>e. (fst e, f (snd e))) (filter P m)) k =
     (case map_of m k of
        None \<Rightarrow> None
      | Some v \<Rightarrow> if P (k, v) then Some (f v) else None)"
proof (induction m)
  case Nil
  then show ?case by simp
next
  case (Cons e m)
  obtain k' v' where e: "e = (k', v')" by (cases e)
  from Cons.prems e have none: "map_of m k' = None"
    by (simp add: map_of_eq_None_iff)
  from Cons.prems have "distinct (map fst m)" by simp
  with Cons.IH have ih: "map_of (map (\<lambda>e. (fst e, f (snd e))) (filter P m)) k =
     (case map_of m k of
        None \<Rightarrow> None
      | Some v \<Rightarrow> if P (k, v) then Some (f v) else None)"
    by simp
  show ?case
  proof (cases "k = k'")
    case True
    with e none ih show ?thesis by simp
  next
    case False
    with e ih show ?thesis by simp
  qed
qed

lemma disconnect_loop_lookup:
  "distinct (map fst m) \<Longrightarrow>
   map_of (fst (disconnect_loop sid m)) pn =
     (case map_of m pn of
        None \<Rightarrow> None
      | Some s \<Rightarrow> if hostSocketId s = sid then None else Some (dropPlayer sid s))"
  by (simp add: disconnect_loop_fst map_of_map_filter split: option.splits)

lemma disconnect_loop_host_left:
  "(pn, s) \<in> set m \<Longrightarrow> hostSocketId s = sid \<Longrightarrow>
   Emit (s_pin s) (SessionEnd ''host-left'') \<in> set (snd (disconnect_loop sid m))"
  by (induction m) (auto simp: endSession_def Let_def split: prod.splits)

lemma disconnect_loop_leaderboard:
  "(pn, s) \<in> set m \<Longrightarrow> hostSocketId s \<noteq> sid \<Longrightarrow> has (players s) sid \<Longrightarrow>
   emitLeaderboard (s\<lparr>players := AList.delete sid (players s)\<rparr>) \<in> set (snd (disconnect_loop sid m))"
  by (induction m) (auto simp: endSession_def Let_def split: prod.splits)

lemma on_disconnect_snd: "snd (on_disconnect sid st) = snd (disconnect_loop sid (SESSIONS st))"
  by (simp add: on_disconnect_def split: prod.splits)

text \<open>
  C7, amended. When the host socket of a registered session disconnects, a
  \<open>session:end\<close> with reason \<open>host-left\<close> is emitted to the pin and the session is
  gone from the registry. On a pin that is not registered, join and answer are replied
  \<open>not_found\<close>, start and advance \<open>not_host\<close>, and nothing changes. When a socket
  that is a participant and not the host disconnects, the session stays with that one
  participant deleted and nothing else changed, and the leaderboard of the remaining
  participants is emitted. A session the socket has no part in stays as it is.
\<close>

theorem disconnect_effects:
  "(map_of (SESSIONS (run evs (init t0))) pn = Some s \<and> hostSocketId s = sid \<longrightarrow>
      Emit pn (SessionEnd ''host-left'') \<in> set (snd (step (Disconnect sid) (run evs (init t0)))) \<and>
      map_of (SESSIONS (fst (step (Disconnect sid) (run evs (init t0))))) pn = None) \<and>
   (map_of (SESSIONS st) pn = None \<longrightarrow>
      step (Join x pn n u) st = (st, [Reply x (Fail not_found)]) \<and>
      step (Answer x pn a) st = (st, [Reply x (Fail not_found)]) \<and>
      step (SessionStart x pn qs) st = (st, [Reply x (Fail not_host)]) \<and>
      step (QuestionNext x pn) st = (st, [Reply x (Fail not_host)])) \<and>
   (map_of (SESSIONS (run evs (init t0))) pn = Some s \<and> hostSocketId s \<noteq> sid \<and>
    map_of (players s) sid \<noteq> None \<longrightarrow>
      map_of (SESSIONS (fst (step (Disconnect sid) (run evs (init t0))))) pn =
        Some (s\<lparr>players := AList.delete sid (players s)\<rparr>) \<and>
      Emit pn (Leaderboard (leaderboard (s\<lparr>players := AList.delete sid (players s)\<rparr>)))
        \<in> set (snd (step (Disconnect sid) (run evs (init t0)))) \<and>
      map_of (AList.delete sid (players s)) sid = None \<and>
      (\<forall>y. y \<noteq> sid \<longrightarrow> map_of (AList.delete sid (players s)) y = map_of (players s) y)) \<and>
   (map_of (SESSIONS (run evs (init t0))) pn = Some s \<and> hostSocketId s \<noteq> sid \<and>
    map_of (players s) sid = None \<longrightarrow>
      map_of (SESSIONS (fst (step (Disconnect sid) (run evs (init t0))))) pn = Some s)"
proof -
  let ?st = "run evs (init t0)"
  have ok: "state_ok ?st" by (rule state_ok_run)
  then have d: "distinct (map fst (SESSIONS ?st))" by (simp add: state_ok_def)
  have look: "map_of (SESSIONS (fst (step (Disconnect sid) ?st))) pn =
     (case map_of (SESSIONS ?st) pn of
        None \<Rightarrow> None
      | Some s \<Rightarrow> if hostSocketId s = sid then None else Some (dropPlayer sid s))"
    using d by (simp add: on_disconnect_fst disconnect_loop_lookup)
  have host: "Emit pn (SessionEnd ''host-left'') \<in> set (snd (step (Disconnect sid) ?st))"
    if "map_of (SESSIONS ?st) pn = Some s" "hostSocketId s = sid"
  proof -
    from that(1) have "(pn, s) \<in> set (SESSIONS ?st)" "s_pin s = pn"
      using reachable_session by (auto dest: map_of_SomeD)
    with that(2) show ?thesis
      using disconnect_loop_host_left [of pn s "SESSIONS ?st" sid] by (simp add: on_disconnect_snd)
  qed
  have board: "Emit pn (Leaderboard (leaderboard (s\<lparr>players := AList.delete sid (players s)\<rparr>)))
        \<in> set (snd (step (Disconnect sid) ?st))"
    if "map_of (SESSIONS ?st) pn = Some s" "hostSocketId s \<noteq> sid" "map_of (players s) sid \<noteq> None"
  proof -
    from that(1) have "(pn, s) \<in> set (SESSIONS ?st)" "s_pin s = pn"
      using reachable_session by (auto dest: map_of_SomeD)
    with that(2,3) show ?thesis
      using disconnect_loop_leaderboard [of pn s "SESSIONS ?st" sid]
      by (simp add: on_disconnect_snd has_def emitLeaderboard_def)
  qed
  have gone: "map_of (SESSIONS st) pn = None \<Longrightarrow>
      step (Join x pn n u) st = (st, [Reply x (Fail not_found)]) \<and>
      step (Answer x pn a) st = (st, [Reply x (Fail not_found)]) \<and>
      step (SessionStart x pn qs) st = (st, [Reply x (Fail not_host)]) \<and>
      step (QuestionNext x pn) st = (st, [Reply x (Fail not_host)])"
    by (simp add: on_join_def on_answer_def on_start_def on_next_def)
  show ?thesis
    using look host board gone
    by (auto simp: dropPlayer_def has_def delete_conv')
qed

text \<open>
  C7, as stated, fails for the host's operations: after the host of Scenario A has
  disconnected, an advance or a start request on the pin is replied \<open>not_host\<close>, not
  \<open>not_found\<close>.
\<close>

theorem host_left_counterexample:
  "map_of (SESSIONS (run scenarioE (init 1000))) ''123456'' = None \<and>
   snd (step (QuestionNext ''sockP1'' ''123456'') (run scenarioE (init 1000))) =
     [Reply ''sockP1'' (Fail not_host)] \<and>
   snd (step (SessionStart ''sockP1'' ''123456'' [(byeQuestion, ''q-2'')]) (run scenarioE (init 1000))) =
     [Reply ''sockP1'' (Fail not_host)] \<and>
   snd (step (QuestionNext ''sockP1'' ''123456'') (run scenarioE (init 1000))) \<noteq>
     [Reply ''sockP1'' (Fail not_found)]"
  by code_simp


theorem disconnect_effects_witness:
  "map_of (SESSIONS (run scenarioA (init 1000))) ''123456'' =
     Some (sessionAt ''123456'' (run scenarioA (init 1000))) \<and>
   hostSocketId (sessionAt ''123456'' (run scenarioA (init 1000))) = ''host'' \<and>
   Emit ''123456'' (SessionEnd ''host-left'')
     \<in> set (snd (step (Disconnect ''host'') (run scenarioA (init 1000)))) \<and>
   map_of (SESSIONS (fst (step (Disconnect ''host'') (run scenarioA (init 1000))))) ''123456'' = None \<and>
   map_of (SESSIONS (run scenarioE (init 1000))) ''123456'' = None \<and>
   step (Join ''sockP2'' ''123456'' ''P2'' ''player-2'') (run scenarioE (init 1000)) =
     (run scenarioE (init 1000), [Reply ''sockP2'' (Fail not_found)]) \<and>
   step (Answer ''sockP1'' ''123456'' ''Hello'') (run scenarioE (init 1000)) =
     (run scenarioE (init 1000), [Reply ''sockP1'' (Fail not_found)]) \<and>
   step (QuestionNext ''host'' ''123456'') (run scenarioE (init 1000)) =
     (run scenarioE (init 1000), [Reply ''host'' (Fail not_host)]) \<and>
   hostSocketId (sessionAt ''123456'' (run scenarioA (init 1000))) \<noteq> ''sockP1'' \<and>
   map_of (players (sessionAt ''123456'' (run scenarioA (init 1000)))) ''sockP1'' \<noteq> None \<and>
   map_of (SESSIONS (fst (step (Disconnect ''sockP1'') (run scenarioA (init 1000))))) ''123456'' =
     Some ((sessionAt ''123456'' (run scenarioA (init 1000)))\<lparr>players := []\<rparr>) \<and>
   Emit ''123456'' (Leaderboard [])
     \<in> set (snd (step (Disconnect ''sockP1'') (run scenarioA (init 1000)))) \<and>
   hostSocketId (sessionAt ''123456'' (run scenarioA (init 1000))) \<noteq> ''sockP2'' \<and>
   map_of (players (sessionAt ''123456'' (run scenarioA (init 1000)))) ''sockP2'' = None \<and>
   map_of (SESSIONS (fst (step (Disconnect ''sockP2'') (run scenarioA (init 1000))))) ''123456'' =
     Some (sessionAt ''123456'' (run scenarioA (init 1000)))"
proof -
  let ?stA = "run scenarioA (init 1000)"
  let ?sA = "sessionAt ''123456'' ?stA"
  have h1: "map_of (SESSIONS ?stA) ''123456'' = Some ?sA" by code_simp
  have h2: "hostSocketId ?sA = ''host''" by code_simp
  have h3: "map_of (SESSIONS (run scenarioE (init 1000))) ''123456'' = None" by code_simp
  have h4: "hostSocketId ?sA \<noteq> ''sockP1''" "hostSocketId ?sA \<noteq> ''sockP2''" by code_simp+
  have h5: "map_of (players ?sA) ''sockP1'' \<noteq> None" by code_simp
  have h6: "map_of (players ?sA) ''sockP2'' = None" by code_simp
  have h7: "AList.delete ''sockP1'' (players ?sA) = []" by code_simp
  note a = disconnect_effects [where evs = scenarioA and ?t0.0 = 1000 and pn = "''123456''"
      and s = ?sA and sid = "''host''", THEN conjunct1]
  note b = disconnect_effects [where st = "run scenarioE (init 1000)" and pn = "''123456''"
      and x = "''sockP2''" and n = "''P2''" and u = "''player-2''", THEN conjunct2, THEN conjunct1]
  note b' = disconnect_effects [where st = "run scenarioE (init 1000)" and pn = "''123456''"
      and x = "''sockP1''" and a = "''Hello''", THEN conjunct2, THEN conjunct1]
  note b'' = disconnect_effects [where st = "run scenarioE (init 1000)" and pn = "''123456''"
      and x = "''host''", THEN conjunct2, THEN conjunct1]
  note c = disconnect_effects [where evs = scenarioA and ?t0.0 = 1000 and pn = "''123456''"
      and s = ?sA and sid = "''sockP1''", THEN conjunct2, THEN conjunct2, THEN conjunct1]
  note d = disconnect_effects [where evs = scenarioA and ?t0.0 = 1000 and pn = "''123456''"
      and s = ?sA and sid = "''sockP2''", THEN conjunct2, THEN conjunct2, THEN conjunct2]
  have c1: "Emit ''123456'' (SessionEnd ''host-left'') \<in> set (snd (step (Disconnect ''host'') ?stA))"
    "map_of (SESSIONS (fst (step (Disconnect ''host'') ?stA))) ''123456'' = None"
    using a h1 h2 by blast+
  have c2: "step (Join ''sockP2'' ''123456'' ''P2'' ''player-2'') (run scenarioE (init 1000)) =
     (run scenarioE (init 1000), [Reply ''sockP2'' (Fail not_found)])"
    using b h3 by blast
  have c3: "step (Answer ''sockP1'' ''123456'' ''Hello'') (run scenarioE (init 1000)) =
     (run scenarioE (init 1000), [Reply ''sockP1'' (Fail not_found)])"
    using b' h3 by blast
  have c4: "step (QuestionNext ''host'' ''123456'') (run scenarioE (init 1000)) =
     (run scenarioE (init 1000), [Reply ''host'' (Fail not_host)])"
    using b'' h3 by blast
  have c5: "map_of (SESSIONS (fst (step (Disconnect ''sockP1'') ?stA))) ''123456'' =
     Some (?sA\<lparr>players := AList.delete ''sockP1'' (players ?sA)\<rparr>)"
    "Emit ''123456'' (Leaderboard (leaderboard (?sA\<lparr>players := AList.delete ''sockP1'' (players ?sA)\<rparr>)))
       \<in> set (snd (step (Disconnect ''sockP1'') ?stA))"
    using c h1 h4 h5 by blast+
  have c6: "map_of (SESSIONS (fst (step (Disconnect ''sockP2'') ?stA))) ''123456'' = Some ?sA"
    using d h1 h4 h6 by blast
  have c7: "leaderboard (?sA\<lparr>players := []\<rparr>) = []"
    by (simp add: leaderboard_def)
  from c5 have c8: "map_of (SESSIONS (fst (step (Disconnect ''sockP1'') ?stA))) ''123456'' =
     Some (?sA\<lparr>players := []\<rparr>)"
    "Emit ''123456'' (Leaderboard []) \<in> set (snd (step (Disconnect ''sockP1'') ?stA))"
    unfolding h7 c7 by blast+
  from h1 h2 h3 h4 h5 h6 c1 c2 c3 c4 c6 c8 show ?thesis by blast
qed

section \<open>Joining again\<close>

lemma update_count:
  "distinct (map fst al) \<Longrightarrow> length (filter (\<lambda>e. fst e = k) (AList.update k v al)) = 1"
  by (induction al) (auto simp: filter_empty_conv rev_image_eqI)

lemma update_keys_same:
  "map_of al k \<noteq> None \<Longrightarrow> map fst (AList.update k v al) = map fst al"
  by (induction al) auto

text \<open>
  C10. When a socket that is already a participant of a session joins it again, its
  entry is replaced by a fresh record: the uuid drawn for this join, score 0, streak
  0, no last answer. The participants still hold exactly one entry for the socket, in
  the same place, and nothing else of the session changes.
\<close>

theorem rejoin_replaces:
  assumes "map_of (SESSIONS (run evs (init t0))) pn = Some s"
    and "map_of (players s) sid = Some old"
  shows "\<exists>s' p'. fst (step (Join sid pn n u) (run evs (init t0))) = putSession pn s' (run evs (init t0)) \<and>
     map_of (SESSIONS (fst (step (Join sid pn n u) (run evs (init t0))))) pn = Some s' \<and>
     map_of (players s') sid = Some p' \<and>
     p' = \<lparr>p_id = u, socketId = sid, name = take 40 (orGuest n), score = 0,
            lastAnswer = None, streak = 0\<rparr> \<and>
     length (filter (\<lambda>e. fst e = sid) (players s')) = 1 \<and>
     map fst (players s') = map fst (players s) \<and>
     s' = s\<lparr>players := players s'\<rparr>"
proof -
  let ?p = "\<lparr>p_id = u, socketId = sid, name = take 40 (orGuest n), score = 0,
            lastAnswer = None, streak = 0\<rparr>"
  let ?s = "s\<lparr>players := AList.update sid ?p (players s)\<rparr>"
  from assms(1) have "session_ok s" by (simp add: reachable_session)
  then have d: "distinct (map fst (players s))" by (simp add: session_ok_def)
  have g: "orGuest (orGuest n) = orGuest n" by (simp add: orGuest_def)
  have 1: "fst (step (Join sid pn n u) (run evs (init t0))) = putSession pn ?s (run evs (init t0))"
    using assms(1) by (simp add: on_join_def addPlayer_def Let_def g)
  have 2: "map_of (SESSIONS (fst (step (Join sid pn n u) (run evs (init t0))))) pn = Some ?s"
    unfolding 1 by (rule map_of_put)
  have 3: "map_of (players ?s) sid = Some ?p" by (simp add: update_conv')
  have 4: "length (filter (\<lambda>e. fst e = sid) (players ?s)) = 1"
    using d by (simp add: update_count)
  have 5: "map fst (players ?s) = map fst (players s)"
    using assms(2) by (simp add: update_keys_same)
  have 6: "?s = s\<lparr>players := players ?s\<rparr>" by simp
  show ?thesis
  proof (intro exI conjI)
    show "fst (step (Join sid pn n u) (run evs (init t0))) = putSession pn ?s (run evs (init t0))"
      by (rule 1)
    show "map_of (SESSIONS (fst (step (Join sid pn n u) (run evs (init t0))))) pn = Some ?s"
      by (rule 2)
    show "map_of (players ?s) sid = Some ?p" by (rule 3)
    show "?p = \<lparr>p_id = u, socketId = sid, name = take 40 (orGuest n), score = 0,
            lastAnswer = None, streak = 0\<rparr>" by (rule refl)
    show "length (filter (\<lambda>e. fst e = sid) (players ?s)) = 1" by (rule 4)
    show "map fst (players ?s) = map fst (players s)" by (rule 5)
    show "?s = s\<lparr>players := players ?s\<rparr>" by (rule 6)
  qed
qed


theorem rejoin_replaces_witness:
  "map_of (SESSIONS (run (scenarioA @ [Answer ''sockP1'' ''123456'' ''Hello'']) (init 1000))) ''123456'' =
     Some (sessionAt ''123456'' (run (scenarioA @ [Answer ''sockP1'' ''123456'' ''Hello'']) (init 1000))) \<and>
   map_of (players (sessionAt ''123456''
       (run (scenarioA @ [Answer ''sockP1'' ''123456'' ''Hello'']) (init 1000)))) ''sockP1'' =
     Some (playerAt ''123456'' ''sockP1''
       (run (scenarioA @ [Answer ''sockP1'' ''123456'' ''Hello'']) (init 1000))) \<and>
   score (playerAt ''123456'' ''sockP1''
     (run (scenarioA @ [Answer ''sockP1'' ''123456'' ''Hello'']) (init 1000))) = 1600 \<and>
   playerAt ''123456'' ''sockP1''
     (fst (step (Join ''sockP1'' ''123456'' ''P1'' ''player-1b'')
        (run (scenarioA @ [Answer ''sockP1'' ''123456'' ''Hello'']) (init 1000)))) =
     \<lparr>p_id = ''player-1b'', socketId = ''sockP1'', name = ''P1'', score = 0,
       lastAnswer = None, streak = 0\<rparr> \<and>
   length (players (sessionAt ''123456''
     (fst (step (Join ''sockP1'' ''123456'' ''P1'' ''player-1b'')
        (run (scenarioA @ [Answer ''sockP1'' ''123456'' ''Hello'']) (init 1000)))))) = 1"
proof -
  let ?st = "run (scenarioA @ [Answer ''sockP1'' ''123456'' ''Hello'']) (init 1000)"
  let ?st' = "fst (step (Join ''sockP1'' ''123456'' ''P1'' ''player-1b'') ?st)"
  have h1: "map_of (SESSIONS ?st) ''123456'' = Some (sessionAt ''123456'' ?st)" by code_simp
  have h2: "map_of (players (sessionAt ''123456'' ?st)) ''sockP1'' =
     Some (playerAt ''123456'' ''sockP1'' ?st)" by code_simp
  have h3: "score (playerAt ''123456'' ''sockP1'' ?st) = 1600" by code_simp
  have h4: "length (players (sessionAt ''123456'' ?st)) = 1" by code_simp
  from rejoin_replaces [OF h1 h2, of "''P1''" "''player-1b''"]
  obtain s' p' where s': "map_of (SESSIONS ?st') ''123456'' = Some s'"
    and p': "map_of (players s') ''sockP1'' = Some p'"
    and f: "p' = \<lparr>p_id = ''player-1b'', socketId = ''sockP1'', name = take 40 (orGuest ''P1''),
        score = 0, lastAnswer = None, streak = 0\<rparr>"
    and k: "map fst (players s') = map fst (players (sessionAt ''123456'' ?st))"
    by blast
  from s' have e1: "sessionAt ''123456'' ?st' = s'" unfolding sessionAt_def by (simp only: option.sel)
  from p' e1 have e2: "playerAt ''123456'' ''sockP1'' ?st' = p'"
    unfolding playerAt_def by (simp only: option.sel)
  have c1: "playerAt ''123456'' ''sockP1'' ?st' =
     \<lparr>p_id = ''player-1b'', socketId = ''sockP1'', name = ''P1'', score = 0,
       lastAnswer = None, streak = 0\<rparr>"
    unfolding e2 f by (simp add: orGuest_def)
  from k have "length (players s') = length (players (sessionAt ''123456'' ?st))"
    by (rule map_eq_imp_length_eq)
  with h4 e1 have c2: "length (players (sessionAt ''123456'' ?st')) = 1" by (simp only:)
  from h1 h2 h3 c1 c2 show ?thesis by blast
qed

end
